theory Spec2Isabelle
  imports Main
begin

section \<open>Data model\<close>

text \<open>
  The records follow the Mongoose schemas. Object ids are natural numbers, a \<^verbatim>\<open>Date\<close> is
  its number of milliseconds since the epoch, an optional reference is an \<open>option\<close>.
\<close>

type_synonym oid = nat
type_synonym date = int

text \<open>The \<^verbatim>\<open>status\<close> enum of an event; an approval entry uses the first four values.\<close>

datatype status = pending | approved | rejected | needs_modification | cancelled

text \<open>The \<^verbatim>\<open>status\<close> enum of a venue booking.\<close>

datatype booking_status = temporary | confirmed | booking_cancelled

record org =
  org_id :: oid
  org_name :: string
  parentOrganization :: "oid option"
  level :: int
  isVenueManager :: bool

record approval =
  organization :: oid
  approval_status :: status
  comments :: "string option"
  timestamp :: date

record modification =
  requestedBy :: oid
  modification_comments :: "string option"
  modifiedAt :: date

record event =
  name :: string
  createdBy :: oid
  startDateTime :: date
  endDateTime :: date
  venue :: oid
  budget :: int
  description :: string
  expectedParticipants :: int
  requiredResources :: "string list"
  status :: status
  approvalChain :: "approval list"
  modificationHistory :: "modification list"

record venueBooking =
  booking_id :: oid
  booking_venue :: oid
  booking_event :: oid
  booking_start :: date
  booking_end :: date
  booking_status :: booking_status

record venue_doc =
  venue_name :: string
  capacity :: int

text \<open>
  The database: the Organization and VenueBooking collections are lists in their natural
  order (a query returns its matches in that order, \<^verbatim>\<open>findOne\<close> the first of them), the
  Event and Venue collections are maps keyed by \<^verbatim>\<open>_id\<close>.
\<close>

record state =
  orgs :: "org list"
  venues :: "oid \<rightharpoonup> venue_doc"
  events :: "oid \<rightharpoonup> event"
  bookings :: "venueBooking list"

datatype error =
    Unauthenticated
  | MissingFields
  | VenueNotFound
  | InvalidDate
  | InvalidInterval
  | VenueConflict "(string \<times> date \<times> date) list"
  | EventNotFound
  | BookingNotFound
  | NotAuthorized
  | InvalidStatus
  | ServerError

section \<open>Venue conflict detection\<close>

text \<open>
  The \<^verbatim>\<open>$or\<close> of the conflict query in \<^verbatim>\<open>router.post('/')\<close> and in
  \<^verbatim>\<open>check-availability\<close>, for a stored booking \<open>[bs, be)\<close> and a requested slot
  \<open>[startDate, endDate)\<close>.
\<close>

definition timeQuery :: "date \<Rightarrow> date \<Rightarrow> date \<Rightarrow> date \<Rightarrow> bool" where
  "timeQuery bs be startDate endDate \<longleftrightarrow>
     (bs \<le> startDate \<and> be > startDate)
   \<or> (bs < endDate \<and> be \<ge> endDate)
   \<or> (bs \<ge> startDate \<and> be \<le> endDate)"

text \<open>The overlap test as the specification words it: \<open>s1 < e2 AND s2 < e1\<close>.\<close>

definition spec_overlap :: "date \<Rightarrow> date \<Rightarrow> date \<Rightarrow> date \<Rightarrow> bool" where
  "spec_overlap s1 e1 s2 e2 \<longleftrightarrow> s1 < e2 \<and> s2 < e1"

definition activeStatus :: "booking_status \<Rightarrow> bool" where
  "activeStatus s \<longleftrightarrow> s = temporary \<or> s = confirmed"

text \<open>
  \<^verbatim>\<open>VenueBooking.find({venue, status: {$in: [...]}, $or: [...]})\<close>, with the optional
  \<^verbatim>\<open>event: {$ne: excludeEventId}\<close> of \<^verbatim>\<open>check-availability\<close>.
\<close>

definition conflictQuery :: "oid \<Rightarrow> date \<Rightarrow> date \<Rightarrow> oid option \<Rightarrow> venueBooking \<Rightarrow> bool" where
  "conflictQuery v startDate endDate excludeEventId b \<longleftrightarrow>
     booking_venue b = v
   \<and> activeStatus (booking_status b)
   \<and> timeQuery (booking_start b) (booking_end b) startDate endDate
   \<and> (case excludeEventId of None \<Rightarrow> True | Some x \<Rightarrow> booking_event b \<noteq> x)"

definition conflictingBookings ::
  "venueBooking list \<Rightarrow> oid \<Rightarrow> date \<Rightarrow> date \<Rightarrow> oid option \<Rightarrow> venueBooking list" where
  "conflictingBookings bs v startDate endDate excludeEventId =
     filter (conflictQuery v startDate endDate excludeEventId) bs"

text \<open>
  The \<^verbatim>\<open>conflictingEvents\<close> of a 409 response. The bookings are populated with their
  events; reading \<^verbatim>\<open>booking.event.name\<close> of a booking whose event document is gone
  throws, and the handler's \<^verbatim>\<open>catch\<close> answers 500.
\<close>

definition conflictInfo :: "(oid \<rightharpoonup> event) \<Rightarrow> venueBooking \<Rightarrow> (string \<times> date \<times> date) option" where
  "conflictInfo es b =
     (case es (booking_event b) of
        None \<Rightarrow> None
      | Some e \<Rightarrow> Some (name e, booking_start b, booking_end b))"

definition conflictError :: "(oid \<rightharpoonup> event) \<Rightarrow> venueBooking list \<Rightarrow> error" where
  "conflictError es bs =
     (case those (map (conflictInfo es) bs) of
        None \<Rightarrow> ServerError
      | Some infos \<Rightarrow> VenueConflict infos)"

section \<open>Collections\<close>

definition findById :: "org list \<Rightarrow> oid \<Rightarrow> org option" where
  "findById os i = find (\<lambda>org. org_id org = i) os"

text \<open>\<^verbatim>\<open>findOneAndUpdate\<close>: the first document that matches is updated, if there is one.\<close>

fun updateFirst :: "('a \<Rightarrow> bool) \<Rightarrow> ('a \<Rightarrow> 'a) \<Rightarrow> 'a list \<Rightarrow> 'a list" where
  "updateFirst P f [] = []"
| "updateFirst P f (x # xs) = (if P x then f x # xs else x # updateFirst P f xs)"

text \<open>\<^verbatim>\<open>VenueBooking.findOneAndUpdate({ event: event._id }, { status: s })\<close>.\<close>

definition setBookingStatus :: "state \<Rightarrow> oid \<Rightarrow> booking_status \<Rightarrow> state" where
  "setBookingStatus st eventId s =
     st\<lparr>bookings := updateFirst (\<lambda>b. booking_event b = eventId)
                                 (\<lambda>b. b\<lparr>booking_status := s\<rparr>) (bookings st)\<rparr>"

text \<open>\<^verbatim>\<open>event.save()\<close>, and the event the handler then sends.\<close>

definition saveEvent :: "state \<Rightarrow> oid \<Rightarrow> event \<Rightarrow> event \<times> state" where
  "saveEvent st eventId ev = (ev, st\<lparr>events := (events st)(eventId \<mapsto> ev)\<rparr>)"

text \<open>\<^verbatim>\<open>Array.prototype.findIndex\<close>, with \<open>None\<close> for \<open>-1\<close>.\<close>

fun findIndex :: "('a \<Rightarrow> bool) \<Rightarrow> 'a list \<Rightarrow> nat option" where
  "findIndex P [] = None"
| "findIndex P (x # xs) = (if P x then Some 0 else map_option Suc (findIndex P xs))"

section \<open>Approval chain construction\<close>

definition newApproval :: "date \<Rightarrow> oid \<Rightarrow> approval" where
  "newApproval now i =
     \<lparr>organization = i, approval_status = pending, comments = None, timestamp = now\<rparr>"

text \<open>
  The \<^verbatim>\<open>while (currentOrg.parentOrganization)\<close> loop of \<^verbatim>\<open>router.post('/')\<close>. Parent links
  can be cyclic (the organization update route sets any parent), so the loop need not
  end: not returning is \<open>None\<close>. When a parent document is missing, \<^verbatim>\<open>currentOrg\<close> is
  \<^verbatim>\<open>null\<close> and the \<^verbatim>\<open>console.error\<close> line reads \<^verbatim>\<open>currentOrg.parentOrganization\<close>,
  which throws; the handler answers 500.
\<close>

partial_function (option) walkParents ::
  "org list \<Rightarrow> date \<Rightarrow> org \<Rightarrow> approval list \<Rightarrow> (error + approval list) option" where
  "walkParents os now currentOrg chain =
     (case parentOrganization currentOrg of
        None \<Rightarrow> Some (Inr chain)
      | Some p \<Rightarrow>
          (case findById os p of
             None \<Rightarrow> Some (Inl ServerError)
           | Some parent \<Rightarrow>
               if level parent = 1
               then Some (Inr (chain @ [newApproval now (org_id parent)]))
               else walkParents os now parent (chain @ [newApproval now (org_id parent)])))"

declare walkParents.simps [code]

text \<open>
  The chain of a new event: the walk from the creator, and the fan-out over all level-1
  organizations when the walk found nobody and the creator is not level 1.
\<close>

definition buildApprovalChain :: "org list \<Rightarrow> date \<Rightarrow> org \<Rightarrow> (error + approval list) option" where
  "buildApprovalChain os now reqOrg =
     (case findById os (org_id reqOrg) of
        None \<Rightarrow> Some (Inl ServerError)
      | Some currentOrg \<Rightarrow>
          (case walkParents os now currentOrg [] of
             None \<Rightarrow> None
           | Some (Inl e) \<Rightarrow> Some (Inl e)
           | Some (Inr chain) \<Rightarrow>
               Some (Inr (if chain = [] \<and> level reqOrg \<noteq> 1
                          then map (\<lambda>org. newApproval now (org_id org))
                                   (filter (\<lambda>org. level org = 1) os)
                          else chain))))"

section \<open>Event creation\<close>

text \<open>
  The request body. A field that is \<^verbatim>\<open>undefined\<close> or \<^verbatim>\<open>null\<close> is \<open>None\<close>; the other
  values are taken at the type the Event schema gives the field. A date field is absent or
  falsy (\<open>NoDate\<close>), a value that \<^verbatim>\<open>new Date\<close> turns into an invalid date (\<open>BadDate\<close>), or
  a value that \<^verbatim>\<open>new Date\<close> reads as a time (\<open>GoodDate\<close>).
\<close>

datatype date_field = NoDate | BadDate | GoodDate date

record payload =
  p_name :: "string option"
  p_startDateTime :: date_field
  p_endDateTime :: date_field
  p_venue :: "oid option"
  p_budget :: "int option"
  p_description :: "string option"
  p_expectedParticipants :: "int option"
  p_requiredResources :: "string list option"

text \<open>JavaScript truthiness: the empty string and the number 0 are falsy.\<close>

definition truthyStr :: "string option \<Rightarrow> bool" where
  "truthyStr s \<longleftrightarrow> s \<noteq> None \<and> s \<noteq> Some []"

definition truthyNum :: "int option \<Rightarrow> bool" where
  "truthyNum n \<longleftrightarrow> n \<noteq> None \<and> n \<noteq> Some 0"

definition truthyDate :: "date_field \<Rightarrow> bool" where
  "truthyDate d \<longleftrightarrow> d \<noteq> NoDate"

definition truthyId :: "oid option \<Rightarrow> bool" where
  "truthyId i \<longleftrightarrow> i \<noteq> None"

text \<open>The required-field test of \<^verbatim>\<open>router.post('/')\<close>.\<close>

definition missingFields :: "payload \<Rightarrow> bool" where
  "missingFields body \<longleftrightarrow>
     \<not> truthyStr (p_name body) \<or> \<not> truthyDate (p_startDateTime body)
   \<or> \<not> truthyDate (p_endDateTime body) \<or> \<not> truthyId (p_venue body)
   \<or> \<not> truthyNum (p_budget body) \<or> \<not> truthyStr (p_description body)
   \<or> \<not> truthyNum (p_expectedParticipants body)"

text \<open>
  From the conflict check on: the query, the 409 answer, the chain, the two saves. The
  ids of the new event and of the new booking are the \<^verbatim>\<open>ObjectId\<close>s Mongoose generates.
\<close>

definition bookVenue ::
  "state \<Rightarrow> oid \<Rightarrow> oid \<Rightarrow> date \<Rightarrow> org \<Rightarrow> string \<Rightarrow> oid \<Rightarrow> int \<Rightarrow> string \<Rightarrow> int
     \<Rightarrow> string list \<Rightarrow> date \<Rightarrow> date \<Rightarrow> (error + event \<times> state) option" where
  "bookVenue st newEventId newBookingId now reqOrg nm v bu de ep rr startDate endDate =
     (case conflictingBookings (bookings st) v startDate endDate None of
        c # cs \<Rightarrow> Some (Inl (conflictError (events st) (c # cs)))
      | [] \<Rightarrow>
          (case buildApprovalChain (orgs st) now reqOrg of
             None \<Rightarrow> None
           | Some (Inl e) \<Rightarrow> Some (Inl e)
           | Some (Inr chain) \<Rightarrow>
               Some (Inr
                 (\<lparr>name = nm, createdBy = org_id reqOrg, startDateTime = startDate,
                   endDateTime = endDate, venue = v, budget = bu, description = de,
                   expectedParticipants = ep, requiredResources = rr, status = pending,
                   approvalChain = chain, modificationHistory = []\<rparr>,
                  st\<lparr>events := (events st)(newEventId \<mapsto>
                        \<lparr>name = nm, createdBy = org_id reqOrg, startDateTime = startDate,
                         endDateTime = endDate, venue = v, budget = bu, description = de,
                         expectedParticipants = ep, requiredResources = rr, status = pending,
                         approvalChain = chain, modificationHistory = []\<rparr>),
                     bookings := bookings st @
                        [\<lparr>booking_id = newBookingId, booking_venue = v,
                          booking_event = newEventId, booking_start = startDate,
                          booking_end = endDate, booking_status = temporary\<rparr>]\<rparr>))))"

text \<open>
  \<^verbatim>\<open>router.post('/')\<close> behind the \<^verbatim>\<open>auth\<close> middleware, which loads the requesting
  organization or answers 401.
\<close>

definition createEvent ::
  "state \<Rightarrow> oid \<Rightarrow> oid \<Rightarrow> date \<Rightarrow> oid \<Rightarrow> payload \<Rightarrow> (error + event \<times> state) option" where
  "createEvent st newEventId newBookingId now requester body =
     (case findById (orgs st) requester of
        None \<Rightarrow> Some (Inl Unauthenticated)
      | Some reqOrg \<Rightarrow>
          if missingFields body then Some (Inl MissingFields)
          else
            (case (p_name body, p_venue body, p_budget body, p_description body,
                   p_expectedParticipants body) of
               (Some nm, Some v, Some bu, Some de, Some ep) \<Rightarrow>
                 if venues st v = None then Some (Inl VenueNotFound)
                 else
                   (case (p_startDateTime body, p_endDateTime body) of
                      (GoodDate startDate, GoodDate endDate) \<Rightarrow>
                        if endDate \<le> startDate then Some (Inl InvalidInterval)
                        else bookVenue st newEventId newBookingId now reqOrg nm v bu de ep
                               (case p_requiredResources body of None \<Rightarrow> [] | Some rr \<Rightarrow> rr)
                               startDate endDate
                    | _ \<Rightarrow> Some (Inl InvalidDate))
             | _ \<Rightarrow> Some (Inl MissingFields)))"

section \<open>Review\<close>

text \<open>
  The cascade reset of a \<^verbatim>\<open>needs_modification\<close> review. For every other chain entry the
  handler starts \<^verbatim>\<open>Organization.findById(...).then(...)\<close> and goes on without awaiting
  it: the callback that resets the entry runs in some later turn of the event loop, after
  the lookup has answered. A schedule says, for each chain index, whether that callback
  has run before \<^verbatim>\<open>event.save()\<close> writes the document, and whether it has run before
  \<^verbatim>\<open>res.json(event)\<close> serialises it.
\<close>

record schedule =
  beforeSave :: "nat \<Rightarrow> bool"
  beforeResponse :: "nat \<Rightarrow> bool"

definition resetNote :: "org \<Rightarrow> string" where
  "resetNote reviewingOrg = ''Reset due to modification request from '' @ org_name reviewingOrg"

text \<open>The body of the \<^verbatim>\<open>then\<close> callback for one chain entry.\<close>

definition resetApproval :: "org list \<Rightarrow> org \<Rightarrow> approval \<Rightarrow> approval" where
  "resetApproval os reviewingOrg a =
     (case findById os (organization a) of
        None \<Rightarrow> a
      | Some org \<Rightarrow>
          if level org > level reviewingOrg
          then a\<lparr>approval_status := pending, comments := Some (resetNote reviewingOrg)\<rparr>
          else a)"

text \<open>The chain once the callbacks of the indices in \<open>hasRun\<close> have run.\<close>

definition cascadeReset ::
  "org list \<Rightarrow> org \<Rightarrow> nat \<Rightarrow> (nat \<Rightarrow> bool) \<Rightarrow> approval list \<Rightarrow> approval list" where
  "cascadeReset os reviewingOrg approvalIndex hasRun chain =
     map (\<lambda>(idx, a). if idx \<noteq> approvalIndex \<and> hasRun idx
                      then resetApproval os reviewingOrg a else a)
         (enumerate 0 chain)"

definition recordDecision ::
  "nat \<Rightarrow> status \<Rightarrow> string option \<Rightarrow> date \<Rightarrow> approval list \<Rightarrow> approval list" where
  "recordDecision i decision cm now chain =
     chain[i := (chain ! i)\<lparr>approval_status := decision, comments := cm, timestamp := now\<rparr>]"

definition addModification :: "oid \<Rightarrow> string option \<Rightarrow> date \<Rightarrow> event \<Rightarrow> event" where
  "addModification who cm now ev =
     ev\<lparr>modificationHistory := modificationHistory ev @
           [\<lparr>requestedBy = who, modification_comments = cm, modifiedAt = now\<rparr>]\<rparr>"

text \<open>
  The branch for a reviewer of level at most 1 that has no entry in the chain: an entry is
  appended and takes the decision.
\<close>

definition reviewOverride ::
  "state \<Rightarrow> date \<Rightarrow> oid \<Rightarrow> org \<Rightarrow> status \<Rightarrow> string option \<Rightarrow> event \<Rightarrow> event \<times> state" where
  "reviewOverride st now eventId reqOrg decision cm ev =
     (let ev1 = ev\<lparr>approvalChain := approvalChain ev @
                   [\<lparr>organization = org_id reqOrg, approval_status = decision,
                     comments = cm, timestamp = now\<rparr>]\<rparr>
      in if decision = rejected then
           saveEvent (setBookingStatus st eventId booking_cancelled) eventId
             (ev1\<lparr>status := rejected\<rparr>)
         else if decision = needs_modification then
           saveEvent st eventId
             (addModification (org_id reqOrg) cm now (ev1\<lparr>status := needs_modification\<rparr>))
         else if decision = approved \<and> level reqOrg = 1 then
           saveEvent (setBookingStatus st eventId confirmed) eventId (ev1\<lparr>status := approved\<rparr>)
         else saveEvent st eventId ev1)"

text \<open>
  The branch for a reviewer that has an entry in the chain, at \<open>approvalIndex\<close>. The
  reviewing organization is looked up again; in the approved branch a missing document
  makes \<^verbatim>\<open>reviewingOrg.level\<close> throw. After a \<^verbatim>\<open>needs_modification\<close> the document
  written and the document sent carry the resets whose callbacks have run by then.
\<close>

definition reviewInChain ::
  "schedule \<Rightarrow> state \<Rightarrow> date \<Rightarrow> oid \<Rightarrow> org \<Rightarrow> nat \<Rightarrow> status \<Rightarrow> string option \<Rightarrow> event
     \<Rightarrow> error + event \<times> state" where
  "reviewInChain sch st now eventId reqOrg approvalIndex decision cm ev =
     (let ev1 = ev\<lparr>approvalChain := recordDecision approvalIndex decision cm now (approvalChain ev)\<rparr>
      in if decision = rejected then
           Inr (saveEvent (setBookingStatus st eventId booking_cancelled) eventId
                  (ev1\<lparr>status := rejected\<rparr>))
         else if decision = needs_modification then
           (let ev2 = addModification (org_id reqOrg) cm now (ev1\<lparr>status := needs_modification\<rparr>)
            in case findById (orgs st) (org_id reqOrg) of
                 None \<Rightarrow> Inr (saveEvent st eventId ev2)
               | Some reviewingOrg \<Rightarrow>
                   Inr (ev2\<lparr>approvalChain :=
                              cascadeReset (orgs st) reviewingOrg approvalIndex
                                (\<lambda>i. beforeSave sch i \<or> beforeResponse sch i) (approvalChain ev2)\<rparr>,
                        snd (saveEvent st eventId
                               (ev2\<lparr>approvalChain :=
                                      cascadeReset (orgs st) reviewingOrg approvalIndex
                                        (beforeSave sch) (approvalChain ev2)\<rparr>))))
         else if decision = approved then
           (case findById (orgs st) (org_id reqOrg) of
              None \<Rightarrow> Inl ServerError
            | Some reviewingOrg \<Rightarrow>
                if level reviewingOrg = 1 then
                  Inr (saveEvent (setBookingStatus st eventId confirmed) eventId
                         (ev1\<lparr>status := approved\<rparr>))
                else if list_all (\<lambda>a. approval_status a = approved)
                          (take (approvalIndex + 1) (approvalChain ev1))
                then Inr (saveEvent st eventId ev1)
                else Inr (saveEvent st eventId (ev1\<lparr>status := pending\<rparr>)))
         else Inr (saveEvent st eventId ev1))"

text \<open>
  \<^verbatim>\<open>router.put('/:eventId/review')\<close> behind \<^verbatim>\<open>auth\<close>. The \<^verbatim>\<open>status\<close> of the request body
  is \<open>None\<close> when it is absent or no status word at all. The result is the event sent
  and the database after the call.
\<close>

definition reviewEvent ::
  "schedule \<Rightarrow> state \<Rightarrow> date \<Rightarrow> oid \<Rightarrow> oid \<Rightarrow> status option \<Rightarrow> string option
     \<Rightarrow> error + event \<times> state" where
  "reviewEvent sch st now eventId requester statusField cm =
     (case findById (orgs st) requester of
        None \<Rightarrow> Inl Unauthenticated
      | Some reqOrg \<Rightarrow>
          (case statusField of
             None \<Rightarrow> Inl InvalidStatus
           | Some decision \<Rightarrow>
               if decision \<noteq> approved \<and> decision \<noteq> rejected \<and> decision \<noteq> needs_modification
               then Inl InvalidStatus
               else
                 (case events st eventId of
                    None \<Rightarrow> Inl EventNotFound
                  | Some ev \<Rightarrow>
                      (case findIndex (\<lambda>a. organization a = org_id reqOrg) (approvalChain ev) of
                         None \<Rightarrow>
                           if level reqOrg \<le> 1
                           then Inr (reviewOverride st now eventId reqOrg decision cm ev)
                           else Inl NotAuthorized
                       | Some approvalIndex \<Rightarrow>
                           reviewInChain sch st now eventId reqOrg approvalIndex decision cm ev))))"

section \<open>Cancellation, update, booking update, availability\<close>

text \<open>\<^verbatim>\<open>router.put('/:id/cancel')\<close>.\<close>

definition cancelEvent :: "state \<Rightarrow> oid \<Rightarrow> oid \<Rightarrow> error + event \<times> state" where
  "cancelEvent st eventId requester =
     (case findById (orgs st) requester of
        None \<Rightarrow> Inl Unauthenticated
      | Some reqOrg \<Rightarrow>
          (case events st eventId of
             None \<Rightarrow> Inl EventNotFound
           | Some ev \<Rightarrow>
               if createdBy ev \<noteq> org_id reqOrg then Inl NotAuthorized
               else Inr (saveEvent (setBookingStatus st eventId booking_cancelled) eventId
                           (ev\<lparr>status := cancelled\<rparr>))))"

text \<open>
  The body of \<^verbatim>\<open>router.put('/:id')\<close>: each field is taken when it is truthy. The dates of
  a patch are times already (a value the schema cannot cast to a date is outside this
  type).
\<close>

record patch =
  u_name :: "string option"
  u_startDateTime :: "date option"
  u_endDateTime :: "date option"
  u_venue :: "oid option"
  u_budget :: "int option"
  u_description :: "string option"
  u_expectedParticipants :: "int option"
  u_requiredResources :: "string list option"
  resetStatus :: bool

definition applyPatch :: "patch \<Rightarrow> event \<Rightarrow> event" where
  "applyPatch body ev =
     ev\<lparr>name := (if truthyStr (u_name body) then the (u_name body) else name ev),
        startDateTime := (case u_startDateTime body of None \<Rightarrow> startDateTime ev | Some t \<Rightarrow> t),
        endDateTime := (case u_endDateTime body of None \<Rightarrow> endDateTime ev | Some t \<Rightarrow> t),
        venue := (case u_venue body of None \<Rightarrow> venue ev | Some v \<Rightarrow> v),
        budget := (if truthyNum (u_budget body) then the (u_budget body) else budget ev),
        description :=
          (if truthyStr (u_description body) then the (u_description body) else description ev),
        expectedParticipants :=
          (if truthyNum (u_expectedParticipants body) then the (u_expectedParticipants body)
           else expectedParticipants ev),
        requiredResources :=
          (case u_requiredResources body of None \<Rightarrow> requiredResources ev | Some rr \<Rightarrow> rr)\<rparr>"

text \<open>
  \<^verbatim>\<open>VenueBooking.findOneAndUpdate({ event }, { startDateTime, endDateTime, venue, status:
  'temporary' })\<close> of the reset branch.
\<close>

definition retargetBooking :: "state \<Rightarrow> oid \<Rightarrow> event \<Rightarrow> state" where
  "retargetBooking st eventId ev =
     st\<lparr>bookings := updateFirst (\<lambda>b. booking_event b = eventId)
          (\<lambda>b. b\<lparr>booking_start := startDateTime ev, booking_end := endDateTime ev,
                 booking_venue := venue ev, booking_status := temporary\<rparr>) (bookings st)\<rparr>"

text \<open>\<^verbatim>\<open>router.put('/:id')\<close> of the event routes.\<close>

definition updateEvent :: "state \<Rightarrow> date \<Rightarrow> oid \<Rightarrow> oid \<Rightarrow> patch \<Rightarrow> error + event \<times> state" where
  "updateEvent st now eventId requester body =
     (case findById (orgs st) requester of
        None \<Rightarrow> Inl Unauthenticated
      | Some reqOrg \<Rightarrow>
          (case events st eventId of
             None \<Rightarrow> Inl EventNotFound
           | Some ev \<Rightarrow>
               if createdBy ev \<noteq> org_id reqOrg then Inl NotAuthorized
               else
                 (let ev1 = applyPatch body ev
                  in if resetStatus body \<and> status ev1 = needs_modification then
                       (let ev2 = addModification (org_id reqOrg)
                                    (Some ''Event modified as requested'') now
                                    (ev1\<lparr>status := pending\<rparr>)
                        in Inr (saveEvent (retargetBooking st eventId ev2) eventId ev2))
                     else Inr (saveEvent st eventId ev1))))"

text \<open>
  \<^verbatim>\<open>router.put('/:id')\<close> of the booking routes (venue managers only). The booking is
  written first; a \<^verbatim>\<open>cancelled\<close> or \<^verbatim>\<open>confirmed\<close> status is then copied to the event.
  When the booking's event document is gone, \<^verbatim>\<open>booking.event._id\<close> throws after the
  booking was written, so the result carries the database next to the answer.
\<close>

definition updateBooking ::
  "state \<Rightarrow> oid \<Rightarrow> oid \<Rightarrow> booking_status option \<Rightarrow> (error + venueBooking) \<times> state" where
  "updateBooking st bookingId requester statusField =
     (case findById (orgs st) requester of
        None \<Rightarrow> (Inl Unauthenticated, st)
      | Some reqOrg \<Rightarrow>
          if \<not> isVenueManager reqOrg then (Inl NotAuthorized, st)
          else
            (case statusField of
               None \<Rightarrow> (Inl InvalidStatus, st)
             | Some s \<Rightarrow>
                 (case find (\<lambda>b. booking_id b = bookingId) (bookings st) of
                    None \<Rightarrow> (Inl BookingNotFound, st)
                  | Some b0 \<Rightarrow>
                      (let b = b0\<lparr>booking_status := s\<rparr>;
                           st1 = st\<lparr>bookings := updateFirst (\<lambda>b. booking_id b = bookingId)
                                      (\<lambda>b. b\<lparr>booking_status := s\<rparr>) (bookings st)\<rparr>
                       in if s = temporary then (Inr b, st1)
                          else
                            (case events st1 (booking_event b) of
                               None \<Rightarrow> (Inl ServerError, st1)
                             | Some ev \<Rightarrow>
                                 (Inr b, st1\<lparr>events := (events st1)(booking_event b \<mapsto>
                                     ev\<lparr>status := (if s = booking_cancelled then cancelled
                                                     else approved)\<rparr>)\<rparr>))))))"

text \<open>
  The interval mode of \<^verbatim>\<open>check-availability\<close>: \<open>Inr None\<close> is \<^verbatim>\<open>{available: true}\<close>,
  \<open>Inr (Some cs)\<close> is \<^verbatim>\<open>{available: false, conflictingEvents: cs}\<close>.
\<close>

definition checkAvailability ::
  "state \<Rightarrow> oid \<Rightarrow> oid \<Rightarrow> date \<Rightarrow> date \<Rightarrow> oid option
     \<Rightarrow> error + (string \<times> date \<times> date) list option" where
  "checkAvailability st requester venueId startDate endDate excludeEventId =
     (case findById (orgs st) requester of
        None \<Rightarrow> Inl Unauthenticated
      | Some reqOrg \<Rightarrow>
          if endDate \<le> startDate then Inl InvalidInterval
          else if venues st venueId = None then Inl VenueNotFound
          else
            (case conflictingBookings (bookings st) venueId startDate endDate excludeEventId of
               [] \<Rightarrow> Inr None
             | c # cs \<Rightarrow>
                 (case those (map (conflictInfo (events st)) (c # cs)) of
                    None \<Rightarrow> Inl ServerError
                  | Some infos \<Rightarrow> Inr (Some infos))))"

section \<open>Bookings and their events\<close>

text \<open>\<^verbatim>\<open>VenueBooking.findOne({ event: eventId })\<close>: the booking an event's handlers write to.\<close>

definition bookingOf :: "state \<Rightarrow> oid \<Rightarrow> venueBooking option" where
  "bookingOf st eventId = find (\<lambda>b. booking_event b = eventId) (bookings st)"

text \<open>
  The booking status the specification assigns to each event status: temporary while the
  event is pending or needs modification, confirmed when it is approved, cancelled when it
  is rejected or cancelled.
\<close>

fun expectedBookingStatus :: "status \<Rightarrow> booking_status" where
  "expectedBookingStatus pending = temporary"
| "expectedBookingStatus needs_modification = temporary"
| "expectedBookingStatus approved = confirmed"
| "expectedBookingStatus rejected = booking_cancelled"
| "expectedBookingStatus cancelled = booking_cancelled"

definition bookingsInSync :: "state \<Rightarrow> bool" where
  "bookingsInSync st \<longleftrightarrow>
     list_all (\<lambda>b. case events st (booking_event b) of
                     None \<Rightarrow> True
                   | Some ev \<Rightarrow> booking_status b = expectedBookingStatus (status ev))
              (bookings st)"

text \<open>No event has two bookings (bookings are only made by event creation).\<close>

definition oneBookingPerEvent :: "state \<Rightarrow> bool" where
  "oneBookingPerEvent st \<longleftrightarrow> distinct (map booking_event (bookings st))"

section \<open>Example data\<close>

text \<open>
  A hierarchy of four organizations (admin, college, department, club at levels 0 to 3),
  one venue, and one event of the club with its booking.
\<close>

definition root_org :: org where
  "root_org = \<lparr>org_id = 0, org_name = ''Admin'', parentOrganization = None,
                level = 0, isVenueManager = True\<rparr>"

definition college :: org where
  "college = \<lparr>org_id = 1, org_name = ''College'', parentOrganization = Some 0,
               level = 1, isVenueManager = False\<rparr>"

definition department :: org where
  "department = \<lparr>org_id = 2, org_name = ''Department'', parentOrganization = Some 1,
                  level = 2, isVenueManager = False\<rparr>"

definition club :: org where
  "club = \<lparr>org_id = 3, org_name = ''Club'', parentOrganization = Some 2,
            level = 3, isVenueManager = False\<rparr>"

definition example_orgs :: "org list" where
  "example_orgs = [root_org, college, department, club]"

definition example_event :: "status \<Rightarrow> approval list \<Rightarrow> event" where
  "example_event s chain =
     \<lparr>name = ''Fest'', createdBy = 3, startDateTime = 10, endDateTime = 13, venue = 1,
      budget = 100, description = ''Annual fest'', expectedParticipants = 50,
      requiredResources = [], status = s, approvalChain = chain, modificationHistory = []\<rparr>"

definition example_booking :: "booking_status \<Rightarrow> venueBooking" where
  "example_booking s =
     \<lparr>booking_id = 20, booking_venue = 1, booking_event = 10, booking_start = 10,
      booking_end = 13, booking_status = s\<rparr>"

definition example_state :: "status \<Rightarrow> approval list \<Rightarrow> booking_status \<Rightarrow> state" where
  "example_state s chain bs =
     \<lparr>orgs = example_orgs,
      venues = [1 \<mapsto> \<lparr>venue_name = ''Hall'', capacity = 500\<rparr>],
      events = [10 \<mapsto> example_event s chain],
      bookings = [example_booking bs]\<rparr>"

definition entry :: "oid \<Rightarrow> status \<Rightarrow> approval" where
  "entry i s = \<lparr>organization = i, approval_status = s, comments = None, timestamp = 0\<rparr>"

definition example_payload :: payload where
  "example_payload =
     \<lparr>p_name = Some ''Quiz'', p_startDateTime = GoodDate 10, p_endDateTime = GoodDate 13,
      p_venue = Some 1, p_budget = Some 100, p_description = Some ''Quiz night'',
      p_expectedParticipants = Some 50, p_requiredResources = None\<rparr>"

text \<open>
  A second event of the club, sent back for modification, booked on the same venue for
  \<open>[20, 23)\<close>, next to the first event, approved and confirmed for \<open>[10, 13)\<close>; and an
  edit that moves the second event to \<open>[11, 14)\<close> with the reset flag.
\<close>

definition quiz_booking :: "date \<Rightarrow> date \<Rightarrow> venueBooking" where
  "quiz_booking s e =
     \<lparr>booking_id = 21, booking_venue = 1, booking_event = 11, booking_start = s,
      booking_end = e, booking_status = temporary\<rparr>"

definition clash_state :: state where
  "clash_state =
     \<lparr>orgs = example_orgs,
      venues = [1 \<mapsto> \<lparr>venue_name = ''Hall'', capacity = 500\<rparr>],
      events = [10 \<mapsto> example_event approved [entry 2 approved, entry 1 approved],
                11 \<mapsto> (example_event needs_modification
                             [entry 2 approved, entry 1 needs_modification])
                          \<lparr>name := ''Quiz'', startDateTime := 20, endDateTime := 23\<rparr>],
      bookings = [example_booking confirmed, quiz_booking 20 23]\<rparr>"

definition move_patch :: patch where
  "move_patch =
     \<lparr>u_name = None, u_startDateTime = Some 11, u_endDateTime = Some 14, u_venue = None,
      u_budget = None, u_description = None, u_expectedParticipants = None,
      u_requiredResources = None, resetStatus = True\<rparr>"

text \<open>
  A team below the club (level 4), and a database with the five organizations and the
  venue, before any event is created.
\<close>

definition team :: org where
  "team = \<lparr>org_id = 4, org_name = ''Team'', parentOrganization = Some 3,
            level = 4, isVenueManager = False\<rparr>"

definition empty_state :: state where
  "empty_state =
     \<lparr>orgs = example_orgs @ [team],
      venues = [1 \<mapsto> \<lparr>venue_name = ''Hall'', capacity = 500\<rparr>],
      events = Map.empty,
      bookings = []\<rparr>"

text \<open>Two schedules: no reset callback has run yet, and all of them have run.\<close>

definition unsettled :: schedule where
  "unsettled = \<lparr>beforeSave = (\<lambda>i. False), beforeResponse = (\<lambda>i. False)\<rparr>"

definition settled :: schedule where
  "settled = \<lparr>beforeSave = (\<lambda>i. True), beforeResponse = (\<lambda>i. True)\<rparr>"

lemmas example_defs = root_org_def college_def department_def club_def example_orgs_def
  example_event_def example_booking_def example_state_def example_payload_def entry_def
  unsettled_def settled_def quiz_booking_def clash_state_def move_patch_def team_def
  empty_state_def

lemmas truthy_defs = missingFields_def truthyStr_def truthyNum_def truthyDate_def truthyId_def

section \<open>Basic facts\<close>

lemma findById_SomeD: "findById os i = Some org \<Longrightarrow> org_id org = i \<and> org \<in> set os"
  by (auto simp: findById_def find_Some_iff)

section \<open>Properties of the conflict query\<close>

text \<open>
  Claim C2. For intervals \<open>[s1, e1)\<close> and \<open>[s2, e2)\<close> of positive length, the three-case
  disjunction of the conflict query holds exactly when the half-open overlap test
  \<open>s1 < e2 \<and> s2 < e1\<close> holds; intervals that only touch at an endpoint do not conflict.
\<close>

theorem timeQuery_iff_overlap:
  assumes "s1 < e1" and "s2 < e2"
  shows "(timeQuery s1 e1 s2 e2 \<longleftrightarrow> spec_overlap s1 e1 s2 e2)
       \<and> (e1 = s2 \<or> e2 = s1 \<longrightarrow> \<not> timeQuery s1 e1 s2 e2)"
  using assms unfolding timeQuery_def spec_overlap_def by auto

theorem timeQuery_iff_overlap_witness:
  "(10::int) < 13 \<and> (11::int) < 14
   \<and> timeQuery 10 13 11 14 \<and> spec_overlap 10 13 11 14
   \<and> \<not> timeQuery 10 13 13 14 \<and> \<not> spec_overlap 10 13 13 14"
  using timeQuery_iff_overlap [of 10 13 11 14] timeQuery_iff_overlap [of 10 13 13 14]
  by (simp add: spec_overlap_def)

section \<open>Cancelled bookings and the conflict query\<close>

lemma conflictingBookings_drop_cancelled:
  "conflictingBookings bs v s e x =
     conflictingBookings (filter (\<lambda>b. booking_status b \<noteq> booking_cancelled) bs) v s e x"
  unfolding conflictingBookings_def
  by (induction bs) (auto simp: conflictQuery_def activeStatus_def)

text \<open>The chain walk fails in one way only: a parent document that is missing.\<close>

lemma walkParents_error:
  assumes "walkParents os now c chain = Some r"
  shows "\<forall>e. r = Inl e \<longrightarrow> e = ServerError"
proof (rule walkParents.raw_induct
    [where P = "\<lambda>os now c chain r. \<forall>e. r = Inl e \<longrightarrow> e = ServerError", OF _ assms])
  fix walk and os :: "org list" and now :: date and c :: org and chain r
  assume IH: "\<And>os now c chain r. walk os now c chain = Some r
                 \<Longrightarrow> \<forall>e. r = Inl e \<longrightarrow> e = ServerError"
    and body: "(case parentOrganization c of
        None \<Rightarrow> Some (Inr chain)
      | Some p \<Rightarrow>
          (case findById os p of
             None \<Rightarrow> Some (Inl ServerError)
           | Some parent \<Rightarrow>
               if level parent = 1
               then Some (Inr (chain @ [newApproval now (org_id parent)]))
               else walk os now parent (chain @ [newApproval now (org_id parent)]))) = Some r"
  from body show "\<forall>e. r = Inl e \<longrightarrow> e = ServerError"
    by (auto split: option.splits if_splits dest: IH)
qed

lemma buildApprovalChain_error:
  "buildApprovalChain os now c = Some (Inl e) \<Longrightarrow> e = ServerError"
  by (auto simp: buildApprovalChain_def split: option.splits sum.splits dest: walkParents_error)

lemma createEvent_conflict_D:
  assumes "createEvent st i j now r body = Some (Inl (VenueConflict cs))"
  shows "\<exists>v s e. p_venue body = Some v \<and> p_startDateTime body = GoodDate s
           \<and> p_endDateTime body = GoodDate e
           \<and> conflictingBookings (bookings st) v s e None \<noteq> []"
  using assms
  by (auto simp: createEvent_def bookVenue_def conflictError_def
      split: option.splits if_splits date_field.splits list.splits sum.splits
      dest: buildApprovalChain_error)

text \<open>
  Claim C9. Conflict detection only looks at bookings that are temporary or confirmed:
  dropping the cancelled bookings does not change the result of the query, a cancelled
  booking is never among the conflicts, and when every booking of the requested venue is
  cancelled (whatever its interval, the requested one included) event creation does not
  answer with a venue conflict.
\<close>

theorem cancelled_never_conflicts:
  "conflictingBookings bs v s e x =
     conflictingBookings (filter (\<lambda>b. booking_status b \<noteq> booking_cancelled) bs) v s e x
   \<and> (b \<in> set bs \<and> booking_status b = booking_cancelled
        \<longrightarrow> b \<notin> set (conflictingBookings bs v s e x))
   \<and> (p_venue body = Some v
        \<and> (\<forall>b \<in> set (bookings st). booking_venue b = v \<longrightarrow> booking_status b = booking_cancelled)
        \<longrightarrow> createEvent st i j now r body \<noteq> Some (Inl (VenueConflict cs)))"
proof (intro conjI impI)
  show "conflictingBookings bs v s e x =
     conflictingBookings (filter (\<lambda>b. booking_status b \<noteq> booking_cancelled) bs) v s e x"
    by (rule conflictingBookings_drop_cancelled)
  show "b \<notin> set (conflictingBookings bs v s e x)"
    if "b \<in> set bs \<and> booking_status b = booking_cancelled"
    using that by (simp add: conflictingBookings_def conflictQuery_def activeStatus_def)
  show "createEvent st i j now r body \<noteq> Some (Inl (VenueConflict cs))"
    if h: "p_venue body = Some v
         \<and> (\<forall>b \<in> set (bookings st). booking_venue b = v \<longrightarrow> booking_status b = booking_cancelled)"
  proof
    assume "createEvent st i j now r body = Some (Inl (VenueConflict cs))"
    from createEvent_conflict_D [OF this] obtain v' s' e' where
      "p_venue body = Some v'" and ne: "conflictingBookings (bookings st) v' s' e' None \<noteq> []"
      by blast
    with h have "v' = v" by simp
    with ne have "conflictingBookings (bookings st) v s' e' None \<noteq> []" by simp
    then obtain b' where "b' \<in> set (bookings st)" "conflictQuery v s' e' None b'"
      by (auto simp: conflictingBookings_def filter_empty_conv)
    with h show False by (auto simp: conflictQuery_def activeStatus_def)
  qed
qed

theorem cancelled_never_conflicts_witness:
  "conflictingBookings [example_booking booking_cancelled] 1 10 13 None = []
   \<and> example_booking booking_cancelled
       \<notin> set (conflictingBookings [example_booking booking_cancelled] 1 10 13 None)
   \<and> createEvent (example_state rejected [] booking_cancelled) 11 21 0 3 example_payload
       \<noteq> Some (Inl (VenueConflict []))"
  using cancelled_never_conflicts [of "[example_booking booking_cancelled]" 1 10 13 None
      "example_booking booking_cancelled" example_payload
      "example_state rejected [] booking_cancelled" 11 21 0 3 "[]"]
  by (simp add: example_defs conflictingBookings_def)

section \<open>Required fields\<close>

text \<open>
  Claim C10. Event creation answers with the missing-fields error whenever one of name,
  startDateTime, endDateTime, venue, budget, description and expectedParticipants is
  falsy; a budget of 0 and a participant count of 0 are rejected in this way although the
  field is present.
\<close>

theorem falsy_field_is_missing:
  assumes "findById (orgs st) requester = Some reqOrg"
    and "p_name body = None \<or> p_name body = Some [] \<or> p_startDateTime body = NoDate
       \<or> p_endDateTime body = NoDate \<or> p_venue body = None
       \<or> p_budget body = None \<or> p_budget body = Some 0
       \<or> p_description body = None \<or> p_description body = Some []
       \<or> p_expectedParticipants body = None \<or> p_expectedParticipants body = Some 0"
  shows "createEvent st newEventId newBookingId now requester body = Some (Inl MissingFields)"
proof -
  from assms(2) have "missingFields body"
    unfolding truthy_defs by auto
  with assms(1) show ?thesis by (simp add: createEvent_def)
qed

theorem falsy_field_is_missing_witness:
  "createEvent (example_state pending [] temporary) 11 21 0 3
       (example_payload\<lparr>p_budget := Some 0\<rparr>) = Some (Inl MissingFields)
   \<and> createEvent (example_state pending [] temporary) 11 21 0 3
       (example_payload\<lparr>p_expectedParticipants := Some 0\<rparr>) = Some (Inl MissingFields)"
  using falsy_field_is_missing [of "example_state pending [] temporary" 3 club
      "example_payload\<lparr>p_budget := Some 0\<rparr>" 11 21 0]
    falsy_field_is_missing [of "example_state pending [] temporary" 3 club
      "example_payload\<lparr>p_expectedParticipants := Some 0\<rparr>" 11 21 0]
  by (simp add: example_defs findById_def)

section \<open>The chain of a creator two levels below the final approver\<close>

lemma buildApprovalChain_two_levels:
  assumes c: "findById os (org_id c) = Some c"
    and p: "parentOrganization c = Some p" "findById os p = Some po" "level po \<noteq> 1"
    and g: "parentOrganization po = Some g" "findById os g = Some go" "level go = 1"
  shows "buildApprovalChain os now c = Some (Inr [newApproval now p, newApproval now g])"
proof -
  have ids: "org_id po = p" "org_id go = g"
    using p g by (auto dest: findById_SomeD)
  have "walkParents os now po [newApproval now p]
          = Some (Inr [newApproval now p, newApproval now g])"
    by (subst walkParents.simps) (simp add: g ids)
  then have "walkParents os now c [] = Some (Inr [newApproval now p, newApproval now g])"
    by (subst walkParents.simps) (simp add: p ids)
  then show ?thesis
    by (simp add: buildApprovalChain_def c)
qed

lemma createEvent_chain:
  assumes "createEvent st i j now requester body = Some (Inr (ev, st'))"
    and "findById (orgs st) requester = Some c"
  shows "buildApprovalChain (orgs st) now c = Some (Inr (approvalChain ev)) \<and> status ev = pending"
  using assms
  by (auto simp: createEvent_def bookVenue_def
      split: option.splits if_splits date_field.splits list.splits sum.splits)

lemma createEvent_returns:
  assumes "buildApprovalChain (orgs st) now c \<noteq> None"
    and "findById (orgs st) requester = Some c"
  shows "createEvent st i j now requester body \<noteq> None"
  using assms
  by (auto simp: createEvent_def bookVenue_def
      split: option.splits if_splits date_field.splits list.splits sum.splits)

text \<open>
  Claim C7. For a creator whose parent is a level-2 organization and whose grandparent is
  a level-1 organization (whatever lies above it), the approval chain built at event
  creation is exactly the parent followed by the grandparent, both pending: the creator is
  not in it and the walk stops at the level-1 ancestor. Event creation returns, and an
  event it creates carries this chain.
\<close>

theorem chain_of_level3_creator:
  assumes "findById (orgs st) requester = Some c"
    and "parentOrganization c = Some p" and "findById (orgs st) p = Some po" and "level po = 2"
    and "parentOrganization po = Some g" and "findById (orgs st) g = Some go" and "level go = 1"
  shows "buildApprovalChain (orgs st) now c =
           Some (Inr [\<lparr>organization = p, approval_status = pending, comments = None,
                        timestamp = now\<rparr>,
                      \<lparr>organization = g, approval_status = pending, comments = None,
                        timestamp = now\<rparr>])
       \<and> createEvent st i j now requester body \<noteq> None
       \<and> (\<forall>ev st'. createEvent st i j now requester body = Some (Inr (ev, st'))
            \<longrightarrow> map organization (approvalChain ev) = [p, g]
              \<and> map approval_status (approvalChain ev) = [pending, pending])"
proof -
  have "org_id c = requester"
    using assms(1) by (simp add: findById_SomeD)
  with assms(1) have c: "findById (orgs st) (org_id c) = Some c" by simp
  have chain: "buildApprovalChain (orgs st) now c
                 = Some (Inr [newApproval now p, newApproval now g])"
    using buildApprovalChain_two_levels [OF c assms(2,3) _ assms(5,6,7)] assms(4) by simp
  have "createEvent st i j now requester body \<noteq> None"
    using createEvent_returns [OF _ assms(1)] chain by simp
  moreover have "map organization (approvalChain ev) = [p, g]
        \<and> map approval_status (approvalChain ev) = [pending, pending]"
    if "createEvent st i j now requester body = Some (Inr (ev, st'))" for ev st'
  proof -
    have "approvalChain ev = [newApproval now p, newApproval now g]"
      using createEvent_chain [OF that assms(1)] chain by simp
    then show ?thesis by (simp add: newApproval_def)
  qed
  ultimately show ?thesis
    using chain by (simp add: newApproval_def)
qed

theorem chain_of_level3_creator_witness:
  "buildApprovalChain example_orgs 7 club =
      Some (Inr [\<lparr>organization = 2, approval_status = pending, comments = None, timestamp = 7\<rparr>,
                 \<lparr>organization = 1, approval_status = pending, comments = None, timestamp = 7\<rparr>])
   \<and> createEvent (example_state rejected [] booking_cancelled) 11 21 7 3 example_payload \<noteq> None"
  using chain_of_level3_creator [of "example_state rejected [] booking_cancelled" 3 club 2
      department 1 college 7 11 21 example_payload]
  by (simp add: example_defs findById_def)

section \<open>Facts about the collections\<close>

lemma find_updateFirst:
  "(\<And>x. P x \<Longrightarrow> P (f x)) \<Longrightarrow> find P (updateFirst P f xs) = map_option f (find P xs)"
  by (induction xs) auto

lemma updateFirst_distinct:
  assumes "distinct (map key xs)" and "\<And>x. key (f x) = key x"
  shows "updateFirst (\<lambda>b. key b = k) f xs = map (\<lambda>b. if key b = k then f b else b) xs"
  using assms(1)
proof (induction xs)
  case Nil
  show ?case by simp
next
  case (Cons x xs)
  show ?case
  proof (cases "key x = k")
    case True
    with Cons.prems have "\<forall>b \<in> set xs. key b \<noteq> k" by (auto simp: image_iff)
    then have "map (\<lambda>b. if key b = k then f b else b) xs = xs"
      by (simp add: map_idI)
    with True show ?thesis by simp
  next
    case False
    with Cons show ?thesis by simp
  qed
qed

lemma findIndex_SomeD:
  "findIndex P xs = Some i \<Longrightarrow> i < length xs \<and> P (xs ! i) \<and> (\<forall>j<i. \<not> P (xs ! j))"
proof (induction xs arbitrary: i)
  case Nil
  then show ?case by simp
next
  case (Cons x xs)
  show ?case
  proof (cases "P x")
    case True
    with Cons.prems show ?thesis by simp
  next
    case False
    with Cons.prems obtain k where k: "findIndex P xs = Some k" "i = Suc k"
      by auto
    from Cons.IH [OF k(1)] False k(2) show ?thesis
      by (auto simp: nth_Cons split: nat.splits)
  qed
qed

lemma bookingOf_setBookingStatus:
  "bookingOf (setBookingStatus st eventId s) eventId
     = map_option (\<lambda>b. b\<lparr>booking_status := s\<rparr>) (bookingOf st eventId)"
  by (simp add: bookingOf_def setBookingStatus_def find_updateFirst)

lemma bookings_setBookingStatus:
  assumes "oneBookingPerEvent st"
  shows "bookings (setBookingStatus st eventId s)
     = map (\<lambda>b. if booking_event b = eventId then b\<lparr>booking_status := s\<rparr> else b) (bookings st)"
  using assms
  by (simp add: setBookingStatus_def oneBookingPerEvent_def updateFirst_distinct)

lemma in_set_map_ifD:
  "b \<in> set (map (\<lambda>x. if P x then f x else x) xs)
     \<Longrightarrow> \<exists>x \<in> set xs. b = (if P x then f x else x)"
  by (induction xs) auto

lemma setBookingStatus_all:
  assumes "oneBookingPerEvent st"
    and "b \<in> set (bookings (setBookingStatus st eventId s))"
    and "booking_event b = eventId"
  shows "booking_status b = s"
proof -
  from assms(1,2) have "b \<in> set (map (\<lambda>b. if booking_event b = eventId
                                         then b\<lparr>booking_status := s\<rparr> else b) (bookings st))"
    by (simp only: bookings_setBookingStatus)
  from in_set_map_ifD [OF this] obtain x where
    "b = (if booking_event x = eventId then x\<lparr>booking_status := s\<rparr> else x)"
    by blast
  with assms(3) show ?thesis
    by (cases "booking_event x = eventId") simp_all
qed

lemma bookingOf_saveEvent [simp]:
  "bookingOf (snd (saveEvent st i ev)) k = bookingOf st k"
  by (simp add: bookingOf_def saveEvent_def)

lemma bookings_saveEvent [simp]: "bookings (snd (saveEvent st i ev)) = bookings st"
  by (simp add: saveEvent_def)

lemma events_saveEvent [simp]: "events (snd (saveEvent st i ev)) = (events st)(i \<mapsto> ev)"
  by (simp add: saveEvent_def)

lemma fst_saveEvent [simp]: "fst (saveEvent st i ev) = ev"
  by (simp add: saveEvent_def)

lemma events_setBookingStatus [simp]: "events (setBookingStatus st i s) = events st"
  by (simp add: setBookingStatus_def)

lemma orgs_setBookingStatus [simp]: "orgs (setBookingStatus st i s) = orgs st"
  by (simp add: setBookingStatus_def)

section \<open>Approval by the level-1 organization\<close>

lemma reviewOverride_level1_approved:
  assumes "level reqOrg = 1"
  shows "reviewOverride st now eventId reqOrg approved cm ev =
           saveEvent (setBookingStatus st eventId confirmed) eventId
             (ev\<lparr>approvalChain := approvalChain ev @
                   [\<lparr>organization = org_id reqOrg, approval_status = approved,
                     comments = cm, timestamp = now\<rparr>], status := approved\<rparr>)"
  using assms by (simp add: reviewOverride_def)

lemma reviewInChain_level1_approved:
  assumes "findById (orgs st) (org_id reqOrg) = Some reqOrg" and "level reqOrg = 1"
  shows "reviewInChain sch st now eventId reqOrg k approved cm ev =
           Inr (saveEvent (setBookingStatus st eventId confirmed) eventId
             (ev\<lparr>approvalChain := recordDecision k approved cm now (approvalChain ev),
                  status := approved\<rparr>))"
  using assms by (simp add: reviewInChain_def)

lemma level1_approval:
  assumes auth: "findById (orgs st) requester = Some reqOrg"
    and lvl: "level reqOrg = 1"
    and ev: "events st eventId = Some ev"
  shows "\<exists>ev'. reviewEvent sch st now eventId requester (Some approved) cm
                 = Inr (saveEvent (setBookingStatus st eventId confirmed) eventId ev')
             \<and> status ev' = approved"
proof -
  have id: "org_id reqOrg = requester"
    using auth by (simp add: findById_SomeD)
  show ?thesis
  proof (cases "findIndex (\<lambda>a. organization a = requester) (approvalChain ev)")
    case None
    let ?ev' = "ev\<lparr>approvalChain := approvalChain ev @
                   [\<lparr>organization = org_id reqOrg, approval_status = approved,
                     comments = cm, timestamp = now\<rparr>], status := approved\<rparr>"
    have "reviewEvent sch st now eventId requester (Some approved) cm
            = Inr (saveEvent (setBookingStatus st eventId confirmed) eventId ?ev')"
      using None auth lvl ev id
      by (simp add: reviewEvent_def reviewOverride_level1_approved)
    then show ?thesis
      by (intro exI [of _ ?ev']) simp
  next
    case (Some k)
    let ?ev' = "ev\<lparr>approvalChain := recordDecision k approved cm now (approvalChain ev),
                  status := approved\<rparr>"
    have "reviewEvent sch st now eventId requester (Some approved) cm
            = Inr (saveEvent (setBookingStatus st eventId confirmed) eventId ?ev')"
      using Some auth lvl ev id
      by (simp add: reviewEvent_def reviewInChain_level1_approved)
    then show ?thesis
      by (intro exI [of _ ?ev']) simp
  qed
qed

text \<open>
  Claim C6. When an organization of level exactly 1 approves an existing event, whether it
  has an entry in the chain or gets one by the authority override, the review succeeds,
  the event sent and stored has status approved, and the event's booking (the one the
  handler writes to) becomes confirmed; when no event has two bookings, every booking of
  the event is confirmed. Nothing is assumed about the chain entries.
\<close>

theorem level1_approval_is_final:
  assumes "findById (orgs st) requester = Some reqOrg"
    and "level reqOrg = 1"
    and "events st eventId = Some ev"
  shows "case reviewEvent sch st now eventId requester (Some approved) cm of
           Inl e \<Rightarrow> False
         | Inr (ev', st') \<Rightarrow>
             status ev' = approved
           \<and> events st' eventId = Some ev'
           \<and> bookingOf st' eventId
               = map_option (\<lambda>b. b\<lparr>booking_status := confirmed\<rparr>) (bookingOf st eventId)
           \<and> (oneBookingPerEvent st \<longrightarrow>
                (\<forall>b \<in> set (bookings st'). booking_event b = eventId
                    \<longrightarrow> booking_status b = confirmed))"
proof -
  from level1_approval [OF assms] obtain ev' where
    r: "reviewEvent sch st now eventId requester (Some approved) cm
          = Inr (saveEvent (setBookingStatus st eventId confirmed) eventId ev')"
    and s: "status ev' = approved"
    by blast
  let ?st' = "snd (saveEvent (setBookingStatus st eventId confirmed) eventId ev')"
  have r': "reviewEvent sch st now eventId requester (Some approved) cm = Inr (ev', ?st')"
    using r by (simp add: saveEvent_def)
  have 1: "events ?st' eventId = Some ev'" by simp
  have 2: "bookingOf ?st' eventId
      = map_option (\<lambda>b. b\<lparr>booking_status := confirmed\<rparr>) (bookingOf st eventId)"
    by (simp add: bookingOf_setBookingStatus)
  have 3: "oneBookingPerEvent st \<longrightarrow>
             (\<forall>b \<in> set (bookings ?st'). booking_event b = eventId
                    \<longrightarrow> booking_status b = confirmed)"
    using setBookingStatus_all [of st _ eventId confirmed] by simp
  show ?thesis
    unfolding r' using s 1 2 3 by simp
qed

theorem level1_approval_is_final_witness:
  "case reviewEvent unsettled
       (example_state pending [entry 2 pending, entry 1 pending] temporary) 5 10 1
       (Some approved) None of
     Inl e \<Rightarrow> False
   | Inr (ev', st') \<Rightarrow>
       status ev' = approved \<and> events st' 10 = Some ev'
     \<and> bookingOf st' 10 = Some (example_booking confirmed)"
proof -
  let ?st = "example_state pending [entry 2 pending, entry 1 pending] temporary"
  have h1: "findById (orgs ?st) 1 = Some college"
    by (simp add: example_defs findById_def)
  have h2: "level college = 1"
    by (simp add: college_def)
  have h3: "events ?st 10 = Some (example_event pending [entry 2 pending, entry 1 pending])"
    by (simp add: example_state_def)
  have b: "bookingOf ?st 10 = Some (example_booking temporary)"
    by (simp add: example_state_def example_booking_def bookingOf_def)
  show ?thesis
    using level1_approval_is_final [OF h1 h2 h3, of unsettled 5 None] b
    by (auto split: sum.splits simp: example_booking_def)
qed

section \<open>Approval by a chain holder below the final approver\<close>

lemma recordDecision_nth:
  "k < length chain \<Longrightarrow>
   recordDecision k d cm now chain ! j =
     (if j = k then (chain ! k)\<lparr>approval_status := d, comments := cm, timestamp := now\<rparr>
      else chain ! j)"
  by (simp add: recordDecision_def nth_list_update)

lemma length_recordDecision [simp]: "length (recordDecision k d cm now chain) = length chain"
  by (simp add: recordDecision_def)

lemma not_allApproved:
  assumes "j < k" and "k < length chain" and "approval_status (chain ! j) \<noteq> approved"
  shows "\<not> list_all (\<lambda>a. approval_status a = approved)
             (take (k + 1) (recordDecision k d cm now chain))"
proof
  assume "list_all (\<lambda>a. approval_status a = approved)
            (take (k + 1) (recordDecision k d cm now chain))"
  then have "\<forall>n < length (take (k + 1) (recordDecision k d cm now chain)).
               approval_status (take (k + 1) (recordDecision k d cm now chain) ! n) = approved"
    by (simp only: list_all_length)
  moreover have "j < length (take (k + 1) (recordDecision k d cm now chain))"
    using assms(1,2) by simp
  ultimately have "approval_status (take (k + 1) (recordDecision k d cm now chain) ! j) = approved"
    by blast
  with assms show False
    by (simp add: recordDecision_nth)
qed

lemma reviewInChain_lower_approved:
  assumes "findById (orgs st) (org_id reqOrg) = Some reqOrg" and "level reqOrg \<noteq> 1"
    and "\<not> list_all (\<lambda>a. approval_status a = approved)
             (take (k + 1) (recordDecision k approved cm now (approvalChain ev)))"
  shows "reviewInChain sch st now eventId reqOrg k approved cm ev =
           Inr (saveEvent st eventId
             (ev\<lparr>approvalChain := recordDecision k approved cm now (approvalChain ev),
                  status := pending\<rparr>))"
  using assms by (simp add: reviewInChain_def)

text \<open>
  Claim C8, as the code has it. When a chain holder whose level is not 1 approves, and
  some chain entry before its own is not approved (its own entry has just been set to
  approved, so these are the entries up to and including its position that can fail the
  test), the review succeeds with the event's status pending, whatever it was before, and
  no booking is written: the event's booking is the same as before. A temporary booking
  stays temporary; a booking that an earlier level-1 approval confirmed stays confirmed.
\<close>

theorem out_of_order_approval_stays_pending:
  assumes "findById (orgs st) requester = Some reqOrg"
    and "level reqOrg \<noteq> 1"
    and "events st eventId = Some ev"
    and "findIndex (\<lambda>a. organization a = requester) (approvalChain ev) = Some k"
    and "j < k" and "approval_status (approvalChain ev ! j) \<noteq> approved"
  shows "case reviewEvent sch st now eventId requester (Some approved) cm of
           Inl e \<Rightarrow> False
         | Inr (ev', st') \<Rightarrow>
             status ev' = pending
           \<and> events st' eventId = Some ev'
           \<and> bookings st' = bookings st
           \<and> bookingOf st' eventId = bookingOf st eventId
           \<and> approval_status (approvalChain ev' ! k) = approved
           \<and> approval_status (approvalChain ev' ! j) \<noteq> approved"
proof -
  have id: "org_id reqOrg = requester"
    using assms(1) by (simp add: findById_SomeD)
  have k: "k < length (approvalChain ev)"
    using findIndex_SomeD [OF assms(4)] by simp
  let ?ev' = "ev\<lparr>approvalChain := recordDecision k approved cm now (approvalChain ev),
                  status := pending\<rparr>"
  have "reviewInChain sch st now eventId reqOrg k approved cm ev
          = Inr (saveEvent st eventId ?ev')"
    using reviewInChain_lower_approved not_allApproved [OF assms(5) k assms(6)] assms(1,2) id
    by simp
  then have r: "reviewEvent sch st now eventId requester (Some approved) cm
                  = Inr (?ev', snd (saveEvent st eventId ?ev'))"
    using assms(1,3,4) id by (simp add: reviewEvent_def saveEvent_def)
  show ?thesis
    unfolding r using k assms(5,6) by (simp add: recordDecision_nth)
qed

text \<open>
  From the database without events: the team creates an event (chain club, department,
  college), the college approves it (approved, booking confirmed), then the department
  approves while the club's entry is still pending. The status goes back to pending and
  the booking is still confirmed, not temporary.
\<close>

theorem reverted_event_keeps_confirmed_booking:
  "case createEvent empty_state 10 20 0 4 example_payload of
     Some (Inr (ev1, st1)) \<Rightarrow>
       map organization (approvalChain ev1) = [3, 2, 1]
     \<and> (case reviewEvent unsettled st1 1 10 1 (Some approved) None of
          Inr (ev2, st2) \<Rightarrow>
            status ev2 = approved
          \<and> map booking_status (bookings st2) = [confirmed]
          \<and> findById (orgs st2) 2 = Some department
          \<and> level department \<noteq> 1
          \<and> findIndex (\<lambda>a. organization a = 2) (approvalChain ev2) = Some 1
          \<and> approval_status (approvalChain ev2 ! 0) \<noteq> approved
          \<and> (case reviewEvent unsettled st2 2 10 2 (Some approved) None of
               Inr (ev3, st3) \<Rightarrow>
                 status ev3 = pending
               \<and> map_option status (events st3 10) = Some pending
               \<and> map booking_status (bookings st3) = [confirmed]
               \<and> map_option booking_status (bookingOf st3 10) = Some confirmed
             | Inl e \<Rightarrow> False)
        | Inl e \<Rightarrow> False)
   | _ \<Rightarrow> False"
  by code_simp

theorem out_of_order_approval_stays_pending_witness:
  "case reviewEvent unsettled
       (example_state pending [entry 3 pending, entry 2 pending, entry 1 pending] temporary)
       5 10 2 (Some approved) None of
     Inl e \<Rightarrow> False
   | Inr (ev', st') \<Rightarrow>
       status ev' = pending \<and> events st' 10 = Some ev'
     \<and> bookings st' = [example_booking temporary]
     \<and> bookingOf st' 10 = Some (example_booking temporary)
     \<and> approval_status (approvalChain ev' ! 1) = approved"
proof -
  let ?chain = "[entry 3 pending, entry 2 pending, entry 1 pending]"
  let ?st = "example_state pending ?chain temporary"
  have h1: "findById (orgs ?st) 2 = Some department"
    by (simp add: example_defs findById_def)
  have h2: "level department \<noteq> 1"
    by (simp add: department_def)
  have h3: "events ?st 10 = Some (example_event pending ?chain)"
    by (simp add: example_state_def)
  have h4: "findIndex (\<lambda>a. organization a = 2) (approvalChain (example_event pending ?chain))
              = Some 1"
    by (simp add: example_event_def entry_def)
  have h5: "(0::nat) < 1" by simp
  have h6: "approval_status (approvalChain (example_event pending ?chain) ! 0) \<noteq> approved"
    by (simp add: example_event_def entry_def)
  have b: "bookings ?st = [example_booking temporary]"
    "bookingOf ?st 10 = Some (example_booking temporary)"
    by (simp_all add: example_state_def example_booking_def bookingOf_def)
  show ?thesis
    using out_of_order_approval_stays_pending [OF h1 h2 h3 h4 h5 h6, of unsettled 5 None] b
    by (auto split: sum.splits)
qed

section \<open>Reviews of events that were already decided\<close>

lemma reviewOverride_effect:
  assumes "reviewOverride st now eventId reqOrg d cm ev = (ev', st')"
    and "d = approved \<or> d = rejected \<or> d = needs_modification"
  shows "events st' eventId = Some ev'
       \<and> (d = rejected \<longrightarrow> status ev' = rejected
             \<and> bookings st' = bookings (setBookingStatus st eventId booking_cancelled))
       \<and> (d = needs_modification \<longrightarrow> status ev' = needs_modification
             \<and> bookings st' = bookings st)
       \<and> (d = approved \<and> level reqOrg = 1 \<longrightarrow> status ev' = approved
             \<and> bookings st' = bookings (setBookingStatus st eventId confirmed))
       \<and> (d = approved \<and> level reqOrg \<noteq> 1 \<longrightarrow> status ev' = status ev
             \<and> bookings st' = bookings st)"
  using assms
  by (auto simp: reviewOverride_def saveEvent_def addModification_def Let_def split: if_splits)

lemma reviewInChain_effect:
  assumes "reviewInChain sch st now eventId reqOrg k d cm ev = Inr (ev', st')"
    and "d = approved \<or> d = rejected \<or> d = needs_modification"
    and "findById (orgs st) (org_id reqOrg) = Some reqOrg"
  shows "map_option status (events st' eventId) = Some (status ev')
       \<and> (d = rejected \<longrightarrow> status ev' = rejected
             \<and> bookings st' = bookings (setBookingStatus st eventId booking_cancelled))
       \<and> (d = needs_modification \<longrightarrow> status ev' = needs_modification
             \<and> bookings st' = bookings st)
       \<and> (d = approved \<and> level reqOrg = 1 \<longrightarrow> status ev' = approved
             \<and> bookings st' = bookings (setBookingStatus st eventId confirmed))
       \<and> (d = approved \<and> level reqOrg \<noteq> 1 \<longrightarrow> (status ev' = status ev \<or> status ev' = pending)
             \<and> bookings st' = bookings st)"
  using assms
  by (auto simp: reviewInChain_def saveEvent_def addModification_def Let_def split: if_splits)

lemma reviewInChain_accepts:
  assumes "findById (orgs st) (org_id reqOrg) = Some reqOrg"
  shows "\<exists>r. reviewInChain sch st now eventId reqOrg k d cm ev = Inr r"
  using assms by (simp add: reviewInChain_def Let_def)

lemma reviewEvent_accepts:
  assumes "events st eventId = Some ev"
    and "findById (orgs st) requester = Some reqOrg"
    and "d = approved \<or> d = rejected \<or> d = needs_modification"
    and "findIndex (\<lambda>a. organization a = requester) (approvalChain ev) \<noteq> None
       \<or> level reqOrg \<le> 1"
  shows "\<exists>r. reviewEvent sch st now eventId requester (Some d) cm = Inr r"
proof -
  have id: "org_id reqOrg = requester"
    using assms(2) by (simp add: findById_SomeD)
  show ?thesis
  proof (cases "findIndex (\<lambda>a. organization a = requester) (approvalChain ev)")
    case None
    with assms id show ?thesis
      by (auto simp: reviewEvent_def)
  next
    case (Some k)
    from assms(2) id have "findById (orgs st) (org_id reqOrg) = Some reqOrg" by simp
    from reviewInChain_accepts [OF this, of sch now eventId k d cm ev] Some assms(1,2,3) id
    show ?thesis
      by (auto simp: reviewEvent_def)
  qed
qed

text \<open>
  Claim C3, as the code has it. A review does not look at the event's current status, so
  rejected, cancelled and approved are not final for it. Whatever the status of the event,
  a review with one of the three decisions, by an organization that has an entry in the
  chain or is of level at most 1, is accepted and stores the status it sends, and: with
  decision rejected the status becomes rejected and the event's booking is cancelled; with
  decision needs_modification the status becomes needs_modification and no booking is
  written; an approval by a reviewer of level 1 makes the status approved and confirms
  the booking; an approval by any other reviewer leaves the status as it was or sets it
  to pending, and writes no booking.
\<close>

theorem review_ignores_current_status:
  assumes "events st eventId = Some ev"
    and "findById (orgs st) requester = Some reqOrg"
    and "d = approved \<or> d = rejected \<or> d = needs_modification"
    and "findIndex (\<lambda>a. organization a = requester) (approvalChain ev) \<noteq> None
       \<or> level reqOrg \<le> 1"
  shows "case reviewEvent sch st now eventId requester (Some d) cm of
           Inl e \<Rightarrow> False
         | Inr (ev', st') \<Rightarrow>
             map_option status (events st' eventId) = Some (status ev')
           \<and> (d = rejected \<longrightarrow> status ev' = rejected
                 \<and> bookings st' = bookings (setBookingStatus st eventId booking_cancelled))
           \<and> (d = needs_modification \<longrightarrow> status ev' = needs_modification
                 \<and> bookings st' = bookings st)
           \<and> (d = approved \<and> level reqOrg = 1 \<longrightarrow> status ev' = approved
                 \<and> bookings st' = bookings (setBookingStatus st eventId confirmed))
           \<and> (d = approved \<and> level reqOrg \<noteq> 1 \<longrightarrow>
                   (status ev' = status ev \<or> status ev' = pending)
                 \<and> bookings st' = bookings st)"
proof -
  from reviewEvent_accepts [OF assms] obtain r where
    Inr: "reviewEvent sch st now eventId requester (Some d) cm = Inr r"
    by blast
  obtain ev' st' where r: "r = (ev', st')" by (cases r)
  have id: "org_id reqOrg = requester"
    using assms(2) by (simp add: findById_SomeD)
  note d = assms(3)
  show ?thesis
  proof (cases "findIndex (\<lambda>a. organization a = requester) (approvalChain ev)")
    case None
    with Inr r assms(1,2) id d have "reviewOverride st now eventId reqOrg d cm ev = (ev', st')"
      by (auto simp: reviewEvent_def split: if_splits)
    from reviewOverride_effect [OF this d] show ?thesis
      unfolding Inr r by simp
  next
    case (Some k)
    with Inr r assms(1,2) id d have
      "reviewInChain sch st now eventId reqOrg k d cm ev = Inr (ev', st')"
      by (auto simp: reviewEvent_def split: if_splits)
    from reviewInChain_effect [OF this d] assms(2) id show ?thesis
      unfolding Inr r by simp
  qed
qed

text \<open>
  A rejected event with a cancelled booking is approved by the level-1 organization: the
  event becomes approved and its booking confirmed. An approved event is rejected by
  the department, without any cancellation by the creator.
\<close>

theorem decided_event_reviewed_again:
  "status (example_event rejected [entry 2 approved, entry 1 rejected]) = rejected
   \<and> (case reviewEvent unsettled
          (example_state rejected [entry 2 approved, entry 1 rejected] booking_cancelled)
          5 10 1 (Some approved) None of
        Inl e \<Rightarrow> False
      | Inr (ev', st') \<Rightarrow>
          status ev' = approved \<and> map_option status (events st' 10) = Some approved
        \<and> map booking_status (bookings st') = [confirmed])
   \<and> status (example_event approved [entry 2 approved, entry 1 approved]) = approved
   \<and> (case reviewEvent unsettled
          (example_state approved [entry 2 approved, entry 1 approved] confirmed)
          5 10 2 (Some rejected) None of
        Inl e \<Rightarrow> False
      | Inr (ev', st') \<Rightarrow>
          status ev' = rejected \<and> map_option status (events st' 10) = Some rejected
        \<and> map booking_status (bookings st') = [booking_cancelled])"
  by (simp add: example_defs reviewEvent_def reviewInChain_def findById_def
      recordDecision_def saveEvent_def setBookingStatus_def)

theorem review_ignores_current_status_witness:
  "case reviewEvent unsettled
       (example_state cancelled [entry 2 approved, entry 1 pending] booking_cancelled)
       5 10 1 (Some needs_modification) None of
     Inl e \<Rightarrow> False
   | Inr (ev', st') \<Rightarrow>
       map_option status (events st' 10) = Some (status ev')
     \<and> status ev' = needs_modification
     \<and> bookings st' = [example_booking booking_cancelled]"
proof -
  let ?chain = "[entry 2 approved, entry 1 pending]"
  let ?st = "example_state cancelled ?chain booking_cancelled"
  have h1: "events ?st 10 = Some (example_event cancelled ?chain)"
    by (simp add: example_state_def)
  have h2: "findById (orgs ?st) 1 = Some college"
    by (simp add: example_defs findById_def)
  have h3: "needs_modification = approved \<or> needs_modification = rejected
              \<or> needs_modification = needs_modification"
    by simp
  have h4: "findIndex (\<lambda>a. organization a = 1)
              (approvalChain (example_event cancelled ?chain)) \<noteq> None
            \<or> level college \<le> 1"
    by (simp add: example_event_def entry_def)
  have b: "bookings ?st = [example_booking booking_cancelled]"
    by (simp add: example_state_def)
  show ?thesis
    using review_ignores_current_status [OF h1 h2 h3 h4, where sch = unsettled and now = 5
        and cm = None] b
    by (auto split: sum.splits)
qed

section \<open>Editing an event sent back for modification\<close>

lemma updateEvent_no_conflict_error:
  "updateEvent st now eventId requester body \<noteq> Inl (VenueConflict cs)"
  by (simp add: updateEvent_def Let_def split: option.splits)

lemma bookingOf_retargetBooking:
  "bookingOf (retargetBooking st eventId ev) eventId
     = map_option (\<lambda>b. b\<lparr>booking_start := startDateTime ev, booking_end := endDateTime ev,
                          booking_venue := venue ev, booking_status := temporary\<rparr>)
         (bookingOf st eventId)"
  by (simp add: bookingOf_def retargetBooking_def find_updateFirst)

lemma events_retargetBooking [simp]: "events (retargetBooking st i ev) = events st"
  by (simp add: retargetBooking_def)

text \<open>
  Claim C5, as the code has it. The update handler runs no conflict check and never
  answers with a venue conflict. When the creator sends an edit with the reset flag for
  an event that needs modification, the edit always succeeds: the status becomes
  pending, one entry is appended to the modification history, the patched venue and
  interval are stored, and the event's booking is moved to that venue and interval with
  status temporary, whatever other bookings there are.
\<close>

theorem reset_edit_is_not_rechecked:
  assumes "findById (orgs st) requester = Some reqOrg"
    and "events st eventId = Some ev"
    and "createdBy ev = requester"
    and "status ev = needs_modification"
    and "resetStatus body"
  shows "(\<forall>cs. updateEvent st now eventId requester body \<noteq> Inl (VenueConflict cs))
       \<and> (case updateEvent st now eventId requester body of
            Inl e \<Rightarrow> False
          | Inr (ev', st') \<Rightarrow>
              events st' eventId = Some ev'
            \<and> status ev' = pending
            \<and> modificationHistory ev' = modificationHistory ev @
                 [\<lparr>requestedBy = requester,
                   modification_comments = Some ''Event modified as requested'',
                   modifiedAt = now\<rparr>]
            \<and> venue ev' = (case u_venue body of None \<Rightarrow> venue ev | Some v \<Rightarrow> v)
            \<and> startDateTime ev' =
                 (case u_startDateTime body of None \<Rightarrow> startDateTime ev | Some t \<Rightarrow> t)
            \<and> endDateTime ev' =
                 (case u_endDateTime body of None \<Rightarrow> endDateTime ev | Some t \<Rightarrow> t)
            \<and> bookingOf st' eventId =
                 map_option (\<lambda>b. b\<lparr>booking_start := startDateTime ev',
                                     booking_end := endDateTime ev',
                                     booking_venue := venue ev',
                                     booking_status := temporary\<rparr>) (bookingOf st eventId))"
proof -
  have id: "org_id reqOrg = requester"
    using assms(1) by (simp add: findById_SomeD)
  let ?ev' = "addModification requester (Some ''Event modified as requested'') now
                ((applyPatch body ev)\<lparr>status := pending\<rparr>)"
  have s: "status (applyPatch body ev) = needs_modification"
    using assms(4) by (simp add: applyPatch_def)
  have r: "updateEvent st now eventId requester body
             = Inr (?ev', snd (saveEvent (retargetBooking st eventId ?ev') eventId ?ev'))"
    using assms id s by (simp add: updateEvent_def Let_def saveEvent_def)
  have "bookingOf (snd (saveEvent (retargetBooking st eventId ?ev') eventId ?ev')) eventId =
          map_option (\<lambda>b. b\<lparr>booking_start := startDateTime ?ev', booking_end := endDateTime ?ev',
                              booking_venue := venue ?ev', booking_status := temporary\<rparr>)
            (bookingOf st eventId)"
    by (simp add: bookingOf_retargetBooking)
  then show ?thesis
    unfolding r
    by (simp add: updateEvent_no_conflict_error [unfolded r] addModification_def applyPatch_def)
qed

text \<open>
  The venue holds a confirmed booking for \<open>[10, 13)\<close>. The availability check for
  \<open>[11, 14)\<close>, with the edited event excluded, reports that booking; the edit to
  \<open>[11, 14)\<close> succeeds all the same and moves the event's booking onto the clash.
\<close>

theorem conflicting_edit_is_accepted:
  "checkAvailability clash_state 3 1 11 14 (Some 11) = Inr (Some [(''Fest'', 10, 13)])
   \<and> (case updateEvent clash_state 5 11 3 move_patch of
        Inl e \<Rightarrow> False
      | Inr (ev', st') \<Rightarrow>
          status ev' = pending \<and> startDateTime ev' = 11 \<and> endDateTime ev' = 14
        \<and> bookings st' = [example_booking confirmed, quiz_booking 11 14])"
  by (simp add: example_defs checkAvailability_def updateEvent_def findById_def
      conflictingBookings_def conflictQuery_def activeStatus_def timeQuery_def conflictInfo_def
      applyPatch_def addModification_def retargetBooking_def saveEvent_def Let_def)

theorem reset_edit_is_not_rechecked_witness:
  "updateEvent clash_state 5 11 3 move_patch \<noteq> Inl (VenueConflict [(''Fest'', 10, 13)])
   \<and> (case updateEvent clash_state 5 11 3 move_patch of
        Inl e \<Rightarrow> False
      | Inr (ev', st') \<Rightarrow>
          events st' 11 = Some ev' \<and> status ev' = pending
        \<and> venue ev' = 1 \<and> startDateTime ev' = 11 \<and> endDateTime ev' = 14
        \<and> bookingOf st' 11 = Some (quiz_booking 11 14))"
proof -
  let ?ev = "(example_event needs_modification [entry 2 approved, entry 1 needs_modification])
               \<lparr>name := ''Quiz'', startDateTime := 20, endDateTime := 23\<rparr>"
  have h1: "findById (orgs clash_state) 3 = Some club"
    by (simp add: example_defs findById_def)
  have h2: "events clash_state 11 = Some ?ev"
    by (simp add: clash_state_def)
  have h3: "createdBy ?ev = 3"
    by (simp add: example_event_def)
  have h4: "status ?ev = needs_modification"
    by (simp add: example_event_def)
  have h5: "resetStatus move_patch"
    by (simp add: move_patch_def)
  have b: "bookingOf clash_state 11 = Some (quiz_booking 20 23)"
    by (simp add: clash_state_def bookingOf_def example_booking_def quiz_booking_def)
  have p: "u_venue move_patch = None" "u_startDateTime move_patch = Some 11"
    "u_endDateTime move_patch = Some 14" "venue ?ev = 1"
    by (simp_all add: move_patch_def example_event_def)
  show ?thesis
    using reset_edit_is_not_rechecked [OF h1 h2 h3 h4 h5, where now = 5] b p
    by (auto split: sum.splits simp: quiz_booking_def)
qed

section \<open>The cascade reset\<close>

lemma cascadeReset_nth:
  "j < length chain \<Longrightarrow>
   cascadeReset os reviewingOrg k hasRun chain ! j =
     (if j \<noteq> k \<and> hasRun j then resetApproval os reviewingOrg (chain ! j) else chain ! j)"
  by (simp add: cascadeReset_def nth_enumerate_eq)

lemma length_cascadeReset [simp]:
  "length (cascadeReset os reviewingOrg k hasRun chain) = length chain"
  by (simp add: cascadeReset_def)

text \<open>
  Claim C1 at a concrete input. The chain is [department (level 2, approved), college
  (level 1, pending)] and the college asks for modifications. The handler calls
  \<^verbatim>\<open>event.save()\<close> right after starting the lookups; with no lookup answered by then
  (and none by the time the response is written), the event stored and the event sent
  both still show the department's entry as approved.
\<close>

theorem cascade_reset_not_awaited:
  "case reviewEvent unsettled
       (example_state pending [entry 2 approved, entry 1 pending] temporary)
       5 10 1 (Some needs_modification) None of
     Inl e \<Rightarrow> False
   | Inr (ev', st') \<Rightarrow>
       status ev' = needs_modification
     \<and> map approval_status (approvalChain ev') = [approved, needs_modification]
     \<and> map_option (\<lambda>ev. map approval_status (approvalChain ev)) (events st' 10)
         = Some [approved, needs_modification]"
  by (simp add: example_defs reviewEvent_def reviewInChain_def findById_def
      recordDecision_def saveEvent_def addModification_def cascadeReset_def Let_def)

text \<open>
  Once every reset callback has run before the save, the stored and the sent event carry
  the cascade reset: every other entry whose organization lies below the reviewer is
  pending with the reset note, and every other entry is as it was.
\<close>

theorem cascade_reset_when_awaited:
  assumes "findById (orgs st) requester = Some reqOrg"
    and "events st eventId = Some ev"
    and "findIndex (\<lambda>a. organization a = requester) (approvalChain ev) = Some k"
    and "\<forall>i. beforeSave sch i"
    and "j < length (approvalChain ev)" and "j \<noteq> k"
  shows "case reviewEvent sch st now eventId requester (Some needs_modification) cm of
           Inl e \<Rightarrow> False
         | Inr (ev', st') \<Rightarrow>
             events st' eventId = Some ev'
           \<and> status ev' = needs_modification
           \<and> approvalChain ev' ! j =
               (case findById (orgs st) (organization (approvalChain ev ! j)) of
                  None \<Rightarrow> approvalChain ev ! j
                | Some org \<Rightarrow>
                    if level org > level reqOrg
                    then (approvalChain ev ! j)
                           \<lparr>approval_status := pending,
                            comments := Some (''Reset due to modification request from ''
                                              @ org_name reqOrg)\<rparr>
                    else approvalChain ev ! j)"
proof -
  have id: "org_id reqOrg = requester"
    using assms(1) by (simp add: findById_SomeD)
  have k: "k < length (approvalChain ev)"
    using findIndex_SomeD [OF assms(3)] by simp
  let ?chain1 = "recordDecision k needs_modification cm now (approvalChain ev)"
  let ?ev2 = "addModification requester cm now
                (ev\<lparr>approvalChain := ?chain1, status := needs_modification\<rparr>)"
  let ?ev' = "?ev2\<lparr>approvalChain := cascadeReset (orgs st) reqOrg k (\<lambda>i. True) ?chain1\<rparr>"
  have all: "beforeSave sch = (\<lambda>i. True)"
    using assms(4) by (simp add: fun_eq_iff)
  have r: "reviewEvent sch st now eventId requester (Some needs_modification) cm
             = Inr (?ev', snd (saveEvent st eventId ?ev'))"
    using assms(1,2,3) id all
    by (simp add: reviewEvent_def reviewInChain_def saveEvent_def addModification_def Let_def)
  have "approvalChain ?ev' ! j = resetApproval (orgs st) reqOrg (approvalChain ev ! j)"
    using assms(5,6) k by (simp add: cascadeReset_nth recordDecision_nth addModification_def)
  then show ?thesis
    unfolding r
    by (simp add: resetApproval_def resetNote_def addModification_def split: option.splits)
qed

theorem cascade_reset_when_awaited_witness:
  "case reviewEvent settled
       (example_state pending [entry 2 approved, entry 1 pending] temporary)
       5 10 1 (Some needs_modification) None of
     Inl e \<Rightarrow> False
   | Inr (ev', st') \<Rightarrow>
       events st' 10 = Some ev'
     \<and> status ev' = needs_modification
     \<and> approvalChain ev' ! 0 =
         \<lparr>organization = 2, approval_status = pending,
          comments = Some ''Reset due to modification request from College'',
          timestamp = 0\<rparr>"
proof -
  let ?chain = "[entry 2 approved, entry 1 pending]"
  let ?st = "example_state pending ?chain temporary"
  have h1: "findById (orgs ?st) 1 = Some college"
    by (simp add: example_defs findById_def)
  have h2: "events ?st 10 = Some (example_event pending ?chain)"
    by (simp add: example_state_def)
  have h3: "findIndex (\<lambda>a. organization a = 1) (approvalChain (example_event pending ?chain))
              = Some 1"
    by (simp add: example_event_def entry_def)
  have h4: "\<forall>i. beforeSave settled i"
    by (simp add: settled_def)
  have h5: "0 < length (approvalChain (example_event pending ?chain))"
    by (simp add: example_event_def)
  have h6: "(0::nat) \<noteq> 1" by simp
  have d: "findById (orgs ?st) (organization (approvalChain (example_event pending ?chain) ! 0))
             = Some department"
    "level department > level college" "org_name college = ''College''"
    "approvalChain (example_event pending ?chain) ! 0 = entry 2 approved"
    by (simp_all add: example_defs findById_def)
  show ?thesis
    using cascade_reset_when_awaited [OF h1 h2 h3 h4 h5 h6, where now = 5 and cm = None] d
    by (auto split: sum.splits simp: entry_def)
qed

section \<open>Bookings in step with their events\<close>

lemma sync_after_write:
  assumes sync: "bookingsInSync st"
    and others: "\<And>k. k \<noteq> eventId \<Longrightarrow> events st' k = events st k"
    and bks: "bookings st' = map (\<lambda>b. if booking_event b = eventId then f b else b) (bookings st)"
    and keep: "\<And>b. booking_event (f b) = booking_event b"
    and new: "\<And>b ev'. b \<in> set (bookings st) \<Longrightarrow> booking_event b = eventId
                \<Longrightarrow> events st' eventId = Some ev'
                \<Longrightarrow> booking_status (f b) = expectedBookingStatus (status ev')"
  shows "bookingsInSync st'"
  unfolding bookingsInSync_def list_all_iff
proof
  fix b'
  assume "b' \<in> set (bookings st')"
  then have "b' \<in> set (map (\<lambda>b. if booking_event b = eventId then f b else b) (bookings st))"
    by (simp only: bks)
  from in_set_map_ifD [OF this] obtain b where
    b: "b \<in> set (bookings st)" "b' = (if booking_event b = eventId then f b else b)"
    by blast
  show "case events st' (booking_event b') of
          None \<Rightarrow> True
        | Some ev \<Rightarrow> booking_status b' = expectedBookingStatus (status ev)"
  proof (cases "booking_event b = eventId")
    case True
    then have b': "b' = f b" "booking_event b' = eventId"
      using b(2) keep by simp_all
    show ?thesis
      using new [OF b(1) True] b' by (simp split: option.splits)
  next
    case False
    then have b': "b' = b" using b(2) by simp
    from sync b(1) have "case events st (booking_event b) of
          None \<Rightarrow> True
        | Some ev \<Rightarrow> booking_status b = expectedBookingStatus (status ev)"
      by (simp add: bookingsInSync_def list_all_iff)
    then show ?thesis
      using others [OF False] unfolding b' by simp
  qed
qed

lemma one_after_write:
  assumes "oneBookingPerEvent st"
    and "bookings st' = map (\<lambda>b. if booking_event b = eventId then f b else b) (bookings st)"
    and "\<And>b. booking_event (f b) = booking_event b"
  shows "oneBookingPerEvent st'"
proof -
  have "map booking_event (bookings st') = map booking_event (bookings st)"
    unfolding assms(2) using assms(3) by (induction "bookings st") auto
  with assms(1) show ?thesis
    by (simp add: oneBookingPerEvent_def)
qed

lemma sync_setBookingStatus:
  assumes "bookingsInSync st" and "oneBookingPerEvent st"
    and "events st' = (events st)(eventId \<mapsto> ev')"
    and "bookings st' = bookings (setBookingStatus st eventId s)"
    and "s = expectedBookingStatus (status ev')"
  shows "bookingsInSync st' \<and> oneBookingPerEvent st'"
proof -
  have bks: "bookings st' = map (\<lambda>b. if booking_event b = eventId
                                       then b\<lparr>booking_status := s\<rparr> else b) (bookings st)"
    using assms(2,4) by (simp only: bookings_setBookingStatus)
  have "bookingsInSync st'"
  proof (rule sync_after_write [OF assms(1) _ bks])
    fix b ev''
    assume "events st' eventId = Some ev''"
    then have "ev'' = ev'" using assms(3) by simp
    then show "booking_status (b\<lparr>booking_status := s\<rparr>) = expectedBookingStatus (status ev'')"
      using assms(5) by simp
  qed (simp_all add: assms(3))
  moreover have "oneBookingPerEvent st'"
    by (rule one_after_write [OF assms(2) bks]) simp
  ultimately show ?thesis ..
qed

lemma sync_no_booking_write:
  assumes "bookingsInSync st" and "oneBookingPerEvent st"
    and "events st' = (events st)(eventId \<mapsto> ev')"
    and "bookings st' = bookings st"
    and "events st eventId = Some ev0"
    and "expectedBookingStatus (status ev') = expectedBookingStatus (status ev0)"
  shows "bookingsInSync st' \<and> oneBookingPerEvent st'"
proof -
  have bks: "bookings st' = map (\<lambda>b. if booking_event b = eventId then b else b) (bookings st)"
    using assms(4) by simp
  have old: "booking_status b = expectedBookingStatus (status ev0)"
    if "b \<in> set (bookings st)" "booking_event b = eventId" for b
    using assms(1,5) that by (auto simp: bookingsInSync_def list_all_iff)
  have "bookingsInSync st'"
  proof (rule sync_after_write [OF assms(1) _ bks])
    fix b ev''
    assume "b \<in> set (bookings st)" "booking_event b = eventId" "events st' eventId = Some ev''"
    then show "booking_status b = expectedBookingStatus (status ev'')"
      using old [of b] assms(3,6) by simp
  qed (simp_all add: assms(3))
  moreover have "oneBookingPerEvent st'"
    using assms(2,4) by (simp add: oneBookingPerEvent_def)
  ultimately show ?thesis ..
qed

lemma cancelEvent_sync:
  assumes "bookingsInSync st" and "oneBookingPerEvent st"
    and "cancelEvent st eventId requester = Inr (ev', st')"
  shows "bookingsInSync st' \<and> oneBookingPerEvent st'"
proof -
  from assms(3) have "events st' = (events st)(eventId \<mapsto> ev')"
    "bookings st' = bookings (setBookingStatus st eventId booking_cancelled)"
    "status ev' = cancelled"
    by (auto simp: cancelEvent_def saveEvent_def split: option.splits if_splits)
  then show ?thesis
    using sync_setBookingStatus [OF assms(1,2)] by simp
qed

lemma bookings_retargetBooking:
  assumes "oneBookingPerEvent st"
  shows "bookings (retargetBooking st eventId ev)
     = map (\<lambda>b. if booking_event b = eventId
                 then b\<lparr>booking_start := startDateTime ev, booking_end := endDateTime ev,
                        booking_venue := venue ev, booking_status := temporary\<rparr>
                 else b) (bookings st)"
  using assms
  by (simp add: retargetBooking_def oneBookingPerEvent_def updateFirst_distinct)

lemma status_applyPatch [simp]: "status (applyPatch body ev) = status ev"
  by (simp add: applyPatch_def)

lemma status_addModification [simp]: "status (addModification who cm now ev) = status ev"
  by (simp add: addModification_def)

lemma updateEvent_frame:
  assumes "updateEvent st now eventId requester body = Inr (ev', st')"
  shows "\<exists>ev0. events st eventId = Some ev0 \<and> events st' = (events st)(eventId \<mapsto> ev')
           \<and> (status ev' = pending \<and> bookings st' = bookings (retargetBooking st eventId ev')
              \<or> status ev' = status ev0 \<and> bookings st' = bookings st)"
proof -
  from assms obtain reqOrg ev0 where
    auth: "findById (orgs st) requester = Some reqOrg" and ev0: "events st eventId = Some ev0"
    and cr: "createdBy ev0 = org_id reqOrg"
    by (auto simp: updateEvent_def split: option.splits if_splits)
  show ?thesis
  proof (cases "resetStatus body \<and> status ev0 = needs_modification")
    case True
    let ?ev2 = "addModification (org_id reqOrg) (Some ''Event modified as requested'') now
                  ((applyPatch body ev0)\<lparr>status := pending\<rparr>)"
    from True assms auth ev0 cr have
      "(ev', st') = saveEvent (retargetBooking st eventId ?ev2) eventId ?ev2"
      by (simp add: updateEvent_def Let_def)
    then have "ev' = ?ev2" "events st' = (events st)(eventId \<mapsto> ev')"
      "bookings st' = bookings (retargetBooking st eventId ev')"
      by (simp_all add: saveEvent_def)
    then show ?thesis using ev0 by simp
  next
    case False
    with assms auth ev0 cr have "(ev', st') = saveEvent st eventId (applyPatch body ev0)"
      by (auto simp: updateEvent_def Let_def)
    then have "ev' = applyPatch body ev0" "events st' = (events st)(eventId \<mapsto> ev')"
      "bookings st' = bookings st"
      by (simp_all add: saveEvent_def)
    then show ?thesis using ev0 by simp
  qed
qed

lemma updateEvent_sync:
  assumes "bookingsInSync st" and "oneBookingPerEvent st"
    and "updateEvent st now eventId requester body = Inr (ev', st')"
  shows "bookingsInSync st' \<and> oneBookingPerEvent st'"
proof -
  from updateEvent_frame [OF assms(3)] obtain ev0 where
    ev0: "events st eventId = Some ev0" and evs: "events st' = (events st)(eventId \<mapsto> ev')"
    and c: "status ev' = pending \<and> bookings st' = bookings (retargetBooking st eventId ev')
              \<or> status ev' = status ev0 \<and> bookings st' = bookings st"
    by blast
  from c show ?thesis
  proof
    assume a: "status ev' = pending \<and> bookings st' = bookings (retargetBooking st eventId ev')"
    let ?f = "\<lambda>b. b\<lparr>booking_start := startDateTime ev', booking_end := endDateTime ev',
                      booking_venue := venue ev', booking_status := temporary\<rparr>"
    have bks: "bookings st' = map (\<lambda>b. if booking_event b = eventId then ?f b else b) (bookings st)"
      using a assms(2) by (simp only: bookings_retargetBooking)
    have "bookingsInSync st'"
    proof (rule sync_after_write [OF assms(1) _ bks])
      fix b ev''
      assume "events st' eventId = Some ev''"
      then have "ev'' = ev'" using evs by simp
      then show "booking_status (?f b) = expectedBookingStatus (status ev'')"
        using a by simp
    qed (simp_all add: evs)
    moreover have "oneBookingPerEvent st'"
      by (rule one_after_write [OF assms(2) bks]) simp
    ultimately show ?thesis ..
  next
    assume a: "status ev' = status ev0 \<and> bookings st' = bookings st"
    then show ?thesis
      using sync_no_booking_write [OF assms(1,2) evs _ ev0] by simp
  qed
qed

lemma reviewOverride_events:
  assumes "reviewOverride st now eventId reqOrg d cm ev0 = (ev', st')"
  shows "events st' = (events st)(eventId \<mapsto> ev')"
  using assms
  by (cases d) (auto simp: reviewOverride_def saveEvent_def Let_def split: if_splits)

lemma reviewInChain_events:
  assumes "reviewInChain sch st now eventId reqOrg k d cm ev0 = Inr (ev', st')"
  shows "\<exists>ev''. events st' = (events st)(eventId \<mapsto> ev'') \<and> status ev'' = status ev'"
proof (cases d)
  case needs_modification
  with assms show ?thesis
    by (cases "findById (orgs st) (org_id reqOrg)")
      (auto simp: reviewInChain_def saveEvent_def Let_def addModification_def)
next
  case approved
  with assms show ?thesis
    by (cases "findById (orgs st) (org_id reqOrg)")
      (auto simp: reviewInChain_def saveEvent_def Let_def split: if_splits)
qed (use assms in \<open>auto simp: reviewInChain_def saveEvent_def Let_def\<close>)

lemma reviewEvent_frame:
  assumes "reviewEvent sch st now eventId requester (Some d) cm = Inr (ev', st')"
  shows "\<exists>reqOrg ev0 ev''. findById (orgs st) requester = Some reqOrg
     \<and> events st eventId = Some ev0
     \<and> events st' = (events st)(eventId \<mapsto> ev'') \<and> status ev'' = status ev'
     \<and> (d = rejected \<and> status ev' = rejected
           \<and> bookings st' = bookings (setBookingStatus st eventId booking_cancelled)
        \<or> d = needs_modification \<and> status ev' = needs_modification
           \<and> bookings st' = bookings st
        \<or> d = approved \<and> level reqOrg = 1 \<and> status ev' = approved
           \<and> bookings st' = bookings (setBookingStatus st eventId confirmed)
        \<or> d = approved \<and> level reqOrg \<noteq> 1
           \<and> (status ev' = status ev0 \<or> status ev' = pending)
           \<and> bookings st' = bookings st)"
proof -
  from assms obtain reqOrg ev0 where
    auth: "findById (orgs st) requester = Some reqOrg" and ev0: "events st eventId = Some ev0"
    and d: "d = approved \<or> d = rejected \<or> d = needs_modification"
    by (auto simp: reviewEvent_def split: option.splits if_splits)
  have id: "org_id reqOrg = requester"
    using auth by (simp add: findById_SomeD)
  show ?thesis
  proof (cases "findIndex (\<lambda>a. organization a = requester) (approvalChain ev0)")
    case None
    with assms auth ev0 id d have r: "reviewOverride st now eventId reqOrg d cm ev0 = (ev', st')"
      by (auto simp: reviewEvent_def split: if_splits)
    from reviewOverride_events [OF r] have "events st' = (events st)(eventId \<mapsto> ev')" .
    moreover have "status ev' = status ev'" ..
    moreover note reviewOverride_effect [OF r d] auth ev0 d
    ultimately show ?thesis
      by (intro exI [of _ reqOrg] exI [of _ ev0] exI [of _ ev']) blast
  next
    case (Some k)
    with assms auth ev0 id d have
      r: "reviewInChain sch st now eventId reqOrg k d cm ev0 = Inr (ev', st')"
      by (auto simp: reviewEvent_def split: if_splits)
    have a: "findById (orgs st) (org_id reqOrg) = Some reqOrg"
      using auth id by simp
    from reviewInChain_events [OF r] obtain ev'' where
      "events st' = (events st)(eventId \<mapsto> ev'')" "status ev'' = status ev'"
      by blast
    moreover note reviewInChain_effect [OF r d a] auth ev0 d
    ultimately show ?thesis
      by (intro exI [of _ reqOrg] exI [of _ ev0] exI [of _ ev'']) blast
  qed
qed

lemma reviewEvent_sync:
  assumes "bookingsInSync st" and "oneBookingPerEvent st"
    and "reviewEvent sch st now eventId requester (Some d) cm = Inr (ev', st')"
    and "d = rejected
       \<or> (\<exists>reqOrg. findById (orgs st) requester = Some reqOrg \<and> level reqOrg = 1 \<and> d = approved)
       \<or> (\<exists>ev. events st eventId = Some ev
              \<and> (status ev = pending \<or> status ev = needs_modification))"
  shows "bookingsInSync st' \<and> oneBookingPerEvent st'"
proof -
  from reviewEvent_frame [OF assms(3)] obtain reqOrg ev0 ev'' where
    auth: "findById (orgs st) requester = Some reqOrg" and ev0: "events st eventId = Some ev0"
    and evs: "events st' = (events st)(eventId \<mapsto> ev'')" and s: "status ev'' = status ev'"
    and c: "d = rejected \<and> status ev' = rejected
           \<and> bookings st' = bookings (setBookingStatus st eventId booking_cancelled)
        \<or> d = needs_modification \<and> status ev' = needs_modification
           \<and> bookings st' = bookings st
        \<or> d = approved \<and> level reqOrg = 1 \<and> status ev' = approved
           \<and> bookings st' = bookings (setBookingStatus st eventId confirmed)
        \<or> d = approved \<and> level reqOrg \<noteq> 1
           \<and> (status ev' = status ev0 \<or> status ev' = pending)
           \<and> bookings st' = bookings st"
    by blast
  from c consider
      (rej) "status ev' = rejected"
            "bookings st' = bookings (setBookingStatus st eventId booking_cancelled)"
    | (fin) "status ev' = approved"
            "bookings st' = bookings (setBookingStatus st eventId confirmed)"
    | (nm) "d = needs_modification" "status ev' = needs_modification" "bookings st' = bookings st"
    | (low) "d = approved" "level reqOrg \<noteq> 1" "status ev' = status ev0 \<or> status ev' = pending"
            "bookings st' = bookings st"
    by blast
  then show ?thesis
  proof cases
    case rej
    then show ?thesis
      using sync_setBookingStatus [OF assms(1,2) evs] s by simp
  next
    case fin
    then show ?thesis
      using sync_setBookingStatus [OF assms(1,2) evs] s by simp
  next
    case nm
    with assms(4) ev0 have "status ev0 = pending \<or> status ev0 = needs_modification"
      by auto
    then have "expectedBookingStatus (status ev'') = expectedBookingStatus (status ev0)"
      using nm s by auto
    then show ?thesis
      using sync_no_booking_write [OF assms(1,2) evs nm(3) ev0] by simp
  next
    case low
    with assms(4) ev0 auth have "status ev0 = pending \<or> status ev0 = needs_modification"
      by auto
    then have "expectedBookingStatus (status ev'') = expectedBookingStatus (status ev0)"
      using low s by auto
    then show ?thesis
      using sync_no_booking_write [OF assms(1,2) evs low(4) ev0] by simp
  qed
qed
lemma updateFirst_find:
  assumes "find P xs = Some b0" and "distinct (map key xs)"
  shows "updateFirst P f xs = map (\<lambda>b. if key b = key b0 then f b else b) xs"
  using assms
proof (induction xs)
  case Nil
  then show ?case by simp
next
  case (Cons x xs)
  show ?case
  proof (cases "P x")
    case True
    with Cons.prems have b0: "b0 = x" by simp
    from Cons.prems have "\<forall>b \<in> set xs. key b \<noteq> key x" by (auto simp: image_iff)
    then have "map (\<lambda>b. if key b = key x then f b else b) xs = xs"
      by (simp add: map_idI)
    with True b0 show ?thesis by simp
  next
    case False
    with Cons.prems have f: "find P xs = Some b0" by simp
    then have "b0 \<in> set xs" by (auto simp: find_Some_iff)
    with Cons.prems have "key x \<noteq> key b0" by (auto simp: image_iff)
    with False Cons.IH [OF f] Cons.prems show ?thesis by simp
  qed
qed

lemma updateBooking_frame:
  assumes "updateBooking st bookingId requester (Some s) = (res, st')"
    and "oneBookingPerEvent st"
  shows "st' = st
       \<or> (\<exists>b0. find (\<lambda>b. booking_id b = bookingId) (bookings st) = Some b0
            \<and> bookings st' = map (\<lambda>b. if booking_event b = booking_event b0
                                       then b\<lparr>booking_status := s\<rparr> else b) (bookings st)
            \<and> (events st' = events st
                  \<and> (s = temporary \<or> events st (booking_event b0) = None)
               \<or> (\<exists>ev0. events st (booking_event b0) = Some ev0 \<and> s \<noteq> temporary
                     \<and> events st' = (events st)(booking_event b0 \<mapsto>
                          ev0\<lparr>status := (if s = booking_cancelled then cancelled
                                          else approved)\<rparr>))))"
proof (cases "find (\<lambda>b. booking_id b = bookingId) (bookings st)")
  case None
  with assms(1) show ?thesis
    by (auto simp: updateBooking_def split: option.splits if_splits)
next
  case (Some b0)
  have bks: "updateFirst (\<lambda>b. booking_id b = bookingId) (\<lambda>b. b\<lparr>booking_status := s\<rparr>)
               (bookings st)
             = map (\<lambda>b. if booking_event b = booking_event b0
                         then b\<lparr>booking_status := s\<rparr> else b) (bookings st)"
    using updateFirst_find [OF Some] assms(2) by (simp add: oneBookingPerEvent_def)
  show ?thesis
  proof (cases "findById (orgs st) requester")
    case None
    with assms(1) show ?thesis by (simp add: updateBooking_def)
  next
    case (Some reqOrg)
    note auth = this
    show ?thesis
    proof (cases "isVenueManager reqOrg")
      case False
      with assms(1) auth show ?thesis by (simp add: updateBooking_def)
    next
      case True
      show ?thesis
      proof (cases "s = temporary")
        case True
        with assms(1) auth \<open>isVenueManager reqOrg\<close> \<open>find _ _ = Some b0\<close> bks show ?thesis
          by (auto simp: updateBooking_def Let_def)
      next
        case False
        show ?thesis
        proof (cases "events st (booking_event b0)")
          case None
          with assms(1) auth \<open>isVenueManager reqOrg\<close> \<open>find _ _ = Some b0\<close> bks False
          show ?thesis
            by (auto simp: updateBooking_def Let_def)
        next
          case (Some ev0)
          with assms(1) auth \<open>isVenueManager reqOrg\<close> \<open>find _ _ = Some b0\<close> bks False
          show ?thesis
            by (auto simp: updateBooking_def Let_def)
        qed
      qed
    qed
  qed
qed

lemma updateBooking_sync:
  assumes "bookingsInSync st" and "oneBookingPerEvent st"
    and "updateBooking st bookingId requester (Some s) = (res, st')"
    and "s \<noteq> temporary
       \<or> (\<forall>b0 ev0. find (\<lambda>b. booking_id b = bookingId) (bookings st) = Some b0
              \<longrightarrow> events st (booking_event b0) = Some ev0
              \<longrightarrow> status ev0 = pending \<or> status ev0 = needs_modification)"
  shows "bookingsInSync st' \<and> oneBookingPerEvent st'"
proof -
  from updateBooking_frame [OF assms(3,2)] consider
      (same) "st' = st"
    | (written) b0 where "find (\<lambda>b. booking_id b = bookingId) (bookings st) = Some b0"
        "bookings st' = map (\<lambda>b. if booking_event b = booking_event b0
                                   then b\<lparr>booking_status := s\<rparr> else b) (bookings st)"
        "events st' = events st \<and> (s = temporary \<or> events st (booking_event b0) = None)
         \<or> (\<exists>ev0. events st (booking_event b0) = Some ev0 \<and> s \<noteq> temporary
               \<and> events st' = (events st)(booking_event b0 \<mapsto>
                    ev0\<lparr>status := (if s = booking_cancelled then cancelled else approved)\<rparr>))"
    by blast
  then show ?thesis
  proof cases
    case same
    with assms(1,2) show ?thesis by simp
  next
    case written
    have "bookingsInSync st'"
    proof (rule sync_after_write [OF assms(1) _ written(2)])
      fix k
      assume "k \<noteq> booking_event b0"
      with written(3) show "events st' k = events st k" by auto
    next
      fix b ev'
      assume "events st' (booking_event b0) = Some ev'"
      with written(3) consider
          (kept) "events st (booking_event b0) = Some ev'" "s = temporary"
        | (copied) "s \<noteq> temporary"
            "status ev' = (if s = booking_cancelled then cancelled else approved)"
        by auto
      then show "booking_status (b\<lparr>booking_status := s\<rparr>) = expectedBookingStatus (status ev')"
      proof cases
        case kept
        with assms(4) written(1) have "status ev' = pending \<or> status ev' = needs_modification"
          by blast
        with kept show ?thesis by auto
      next
        case copied
        then show ?thesis by (cases s) simp_all
      qed
    qed simp
    moreover have "oneBookingPerEvent st'"
      by (rule one_after_write [OF assms(2) written(2)]) simp
    ultimately show ?thesis ..
  qed
qed

lemma createEvent_frame:
  assumes "createEvent st i j now requester body = Some (Inr (ev', st'))"
  shows "events st' = (events st)(i \<mapsto> ev') \<and> status ev' = pending
       \<and> (\<exists>nb. bookings st' = bookings st @ [nb] \<and> booking_event nb = i
                \<and> booking_status nb = temporary)"
  using assms
  by (auto simp: createEvent_def bookVenue_def
      split: option.splits if_splits date_field.splits list.splits sum.splits)

lemma createEvent_sync:
  assumes "bookingsInSync st" and "oneBookingPerEvent st"
    and "createEvent st i j now requester body = Some (Inr (ev', st'))"
    and "i \<notin> booking_event ` set (bookings st)"
  shows "bookingsInSync st' \<and> oneBookingPerEvent st'"
proof -
  from createEvent_frame [OF assms(3)] obtain nb where
    evs: "events st' = (events st)(i \<mapsto> ev')" and s: "status ev' = pending"
    and bks: "bookings st' = bookings st @ [nb]" and nb: "booking_event nb = i"
      "booking_status nb = temporary"
    by blast
  have old: "case events st' (booking_event b) of
          None \<Rightarrow> True
        | Some ev \<Rightarrow> booking_status b = expectedBookingStatus (status ev)"
    if "b \<in> set (bookings st)" for b
  proof -
    from that assms(4) have "booking_event b \<noteq> i" by auto
    then have "events st' (booking_event b) = events st (booking_event b)"
      using evs by simp
    moreover from assms(1) that have "case events st (booking_event b) of
          None \<Rightarrow> True
        | Some ev \<Rightarrow> booking_status b = expectedBookingStatus (status ev)"
      by (simp add: bookingsInSync_def list_all_iff)
    ultimately show ?thesis by simp
  qed
  have "bookingsInSync st'"
    unfolding bookingsInSync_def bks list_all_append
    using old nb s evs by (simp add: list_all_iff)
  moreover have "oneBookingPerEvent st'"
    using assms(2,4) nb by (simp add: oneBookingPerEvent_def bks)
  ultimately show ?thesis ..
qed
text \<open>
  Claim C4, as the code has it. In a database where every booking has the status that its
  event's status calls for, and no event has two bookings, these operations keep both
  properties: event creation (under fresh ids), cancellation, the creator's update, a
  review whose decision is rejected, or an approval by a level-1 reviewer, or any review
  of an event that is pending or needs modification, and the venue manager's booking
  update to confirmed or cancelled, or to temporary for an event that is pending or needs
  modification.
\<close>

theorem bookings_stay_in_sync:
  assumes "bookingsInSync st" and "oneBookingPerEvent st"
  shows "(createEvent st newEventId newBookingId now requester body = Some (Inr (ev', st'))
            \<and> newEventId \<notin> booking_event ` set (bookings st)
          \<longrightarrow> bookingsInSync st' \<and> oneBookingPerEvent st')
       \<and> (cancelEvent st eventId requester = Inr (ev', st')
          \<longrightarrow> bookingsInSync st' \<and> oneBookingPerEvent st')
       \<and> (updateEvent st now eventId requester edit = Inr (ev', st')
          \<longrightarrow> bookingsInSync st' \<and> oneBookingPerEvent st')
       \<and> (reviewEvent sch st now eventId requester (Some d) cm = Inr (ev', st')
            \<and> (d = rejected
               \<or> (\<exists>reqOrg. findById (orgs st) requester = Some reqOrg \<and> level reqOrg = 1
                     \<and> d = approved)
               \<or> (\<exists>ev. events st eventId = Some ev
                     \<and> (status ev = pending \<or> status ev = needs_modification)))
          \<longrightarrow> bookingsInSync st' \<and> oneBookingPerEvent st')
       \<and> (updateBooking st bookingId requester (Some s) = (res, st')
            \<and> (s \<noteq> temporary
               \<or> (\<forall>b0 ev0. find (\<lambda>b. booking_id b = bookingId) (bookings st) = Some b0
                     \<longrightarrow> events st (booking_event b0) = Some ev0
                     \<longrightarrow> status ev0 = pending \<or> status ev0 = needs_modification))
          \<longrightarrow> bookingsInSync st' \<and> oneBookingPerEvent st')"
proof (intro conjI impI)
  assume "createEvent st newEventId newBookingId now requester body = Some (Inr (ev', st'))
            \<and> newEventId \<notin> booking_event ` set (bookings st)"
  then show "bookingsInSync st'" "oneBookingPerEvent st'"
    using createEvent_sync [OF assms] by blast+
next
  assume "cancelEvent st eventId requester = Inr (ev', st')"
  then show "bookingsInSync st'" "oneBookingPerEvent st'"
    using cancelEvent_sync [OF assms] by blast+
next
  assume "updateEvent st now eventId requester edit = Inr (ev', st')"
  then show "bookingsInSync st'" "oneBookingPerEvent st'"
    using updateEvent_sync [OF assms] by blast+
next
  assume a: "reviewEvent sch st now eventId requester (Some d) cm = Inr (ev', st')
            \<and> (d = rejected
               \<or> (\<exists>reqOrg. findById (orgs st) requester = Some reqOrg \<and> level reqOrg = 1
                     \<and> d = approved)
               \<or> (\<exists>ev. events st eventId = Some ev
                     \<and> (status ev = pending \<or> status ev = needs_modification)))"
  show "bookingsInSync st'" "oneBookingPerEvent st'"
    using reviewEvent_sync [OF assms conjunct1 [OF a] conjunct2 [OF a]] by simp_all
next
  assume a: "updateBooking st bookingId requester (Some s) = (res, st')
            \<and> (s \<noteq> temporary
               \<or> (\<forall>b0 ev0. find (\<lambda>b. booking_id b = bookingId) (bookings st) = Some b0
                     \<longrightarrow> events st (booking_event b0) = Some ev0
                     \<longrightarrow> status ev0 = pending \<or> status ev0 = needs_modification))"
  show "bookingsInSync st'" "oneBookingPerEvent st'"
    using updateBooking_sync [OF assms conjunct1 [OF a] conjunct2 [OF a]] by simp_all
qed

text \<open>
  The event is approved and its booking confirmed. After the department asks for
  modifications the event needs modification and the booking is still confirmed; after
  the venue manager sets the booking to temporary the event is still approved.
\<close>

theorem sync_lost_after_approval:
  "bookingsInSync (example_state approved [entry 2 approved, entry 1 approved] confirmed)
   \<and> oneBookingPerEvent (example_state approved [entry 2 approved, entry 1 approved] confirmed)
   \<and> (case reviewEvent unsettled
          (example_state approved [entry 2 approved, entry 1 approved] confirmed)
          5 10 2 (Some needs_modification) None of
        Inl e \<Rightarrow> False
      | Inr (ev', st') \<Rightarrow>
          \<not> bookingsInSync st'
        \<and> map_option status (events st' 10) = Some needs_modification
        \<and> map booking_status (bookings st') = [confirmed])
   \<and> (case updateBooking
          (example_state approved [entry 2 approved, entry 1 approved] confirmed)
          20 0 (Some temporary) of
        (res, st') \<Rightarrow>
          res = Inr (example_booking temporary)
        \<and> \<not> bookingsInSync st'
        \<and> map_option status (events st' 10) = Some approved
        \<and> map booking_status (bookings st') = [temporary])"
  by (simp add: example_defs bookingsInSync_def oneBookingPerEvent_def reviewEvent_def
      reviewInChain_def updateBooking_def findById_def recordDecision_def saveEvent_def
      addModification_def cascadeReset_def Let_def)

theorem bookings_stay_in_sync_witness:
  "bookingsInSync (example_state cancelled [entry 2 pending, entry 1 pending] booking_cancelled)
   \<and> oneBookingPerEvent
        (example_state cancelled [entry 2 pending, entry 1 pending] booking_cancelled)
   \<and> bookingsInSync (example_state rejected [entry 2 pending, entry 1 rejected] booking_cancelled)
   \<and> bookingsInSync (example_state approved [entry 2 pending, entry 1 pending] confirmed)
   \<and> bookingsInSync
        ((example_state cancelled [] booking_cancelled)
           \<lparr>events := [10 \<mapsto> example_event cancelled [],
                        11 \<mapsto> \<lparr>name = ''Quiz'', createdBy = 3, startDateTime = 10,
                               endDateTime = 13, venue = 1, budget = 100,
                               description = ''Quiz night'', expectedParticipants = 50,
                               requiredResources = [], status = pending,
                               approvalChain = [entry 2 pending, entry 1 pending],
                               modificationHistory = []\<rparr>],
             bookings := [example_booking booking_cancelled, quiz_booking 10 13]\<rparr>)"
proof -
  let ?chain = "[entry 2 pending, entry 1 pending]"
  let ?st = "example_state pending ?chain temporary"
  let ?old = "example_state cancelled [] booking_cancelled"
  let ?quiz = "\<lparr>name = ''Quiz'', createdBy = 3, startDateTime = 10,
                 endDateTime = 13, venue = 1, budget = 100,
                 description = ''Quiz night'', expectedParticipants = 50,
                 requiredResources = [], status = pending,
                 approvalChain = [entry 2 pending, entry 1 pending],
                 modificationHistory = []\<rparr>"
  let ?new = "?old\<lparr>events := [10 \<mapsto> example_event cancelled [], 11 \<mapsto> ?quiz],
                    bookings := [example_booking booking_cancelled, quiz_booking 10 13]\<rparr>"
  have sync: "bookingsInSync ?st" "oneBookingPerEvent ?st"
    "bookingsInSync ?old" "oneBookingPerEvent ?old"
    by (simp_all add: example_defs bookingsInSync_def oneBookingPerEvent_def)
  have cancel: "cancelEvent ?st 10 3
      = Inr (example_event cancelled ?chain, example_state cancelled ?chain booking_cancelled)"
    by (simp add: example_defs cancelEvent_def findById_def saveEvent_def setBookingStatus_def)
  have review: "reviewEvent unsettled ?st 0 10 1 (Some rejected) None
      = Inr (example_event rejected [entry 2 pending, entry 1 rejected],
             example_state rejected [entry 2 pending, entry 1 rejected] booking_cancelled)"
    by (simp add: example_defs reviewEvent_def reviewInChain_def findById_def
        recordDecision_def saveEvent_def setBookingStatus_def)
  have manager: "updateBooking ?st 20 0 (Some confirmed)
      = (Inr (example_booking confirmed), example_state approved ?chain confirmed)"
    by (simp add: example_defs updateBooking_def findById_def Let_def)
  have chain: "buildApprovalChain example_orgs 0 club
      = Some (Inr [newApproval 0 2, newApproval 0 1])"
    by (rule buildApprovalChain_two_levels [where po = department and go = college])
      (simp_all add: example_defs findById_def)
  have create: "createEvent ?old 11 21 0 3 example_payload = Some (Inr (?quiz, ?new))"
    using chain
    by (simp add: createEvent_def bookVenue_def truthy_defs findById_def conflictingBookings_def
        conflictQuery_def activeStatus_def newApproval_def example_state_def example_payload_def
        example_booking_def quiz_booking_def example_orgs_def club_def root_org_def college_def
        department_def entry_def example_event_def)
  have fresh: "11 \<notin> booking_event ` set (bookings ?old)"
    by (simp add: example_state_def example_booking_def)
  have 1: "bookingsInSync (example_state cancelled ?chain booking_cancelled)
           \<and> oneBookingPerEvent (example_state cancelled ?chain booking_cancelled)"
    using bookings_stay_in_sync [OF sync(1,2), where eventId = 10 and requester = 3
        and ev' = "example_event cancelled ?chain"
        and st' = "example_state cancelled ?chain booking_cancelled"] cancel
    by blast
  have 2: "bookingsInSync
             (example_state rejected [entry 2 pending, entry 1 rejected] booking_cancelled)"
    using bookings_stay_in_sync [OF sync(1,2), where sch = unsettled and now = 0 and eventId = 10
        and requester = 1 and d = rejected and cm = None
        and ev' = "example_event rejected [entry 2 pending, entry 1 rejected]"
        and st' = "example_state rejected [entry 2 pending, entry 1 rejected] booking_cancelled"]
      review
    by blast
  have 3: "bookingsInSync (example_state approved ?chain confirmed)"
    using bookings_stay_in_sync [OF sync(1,2), where bookingId = 20 and requester = 0
        and s = confirmed and res = "Inr (example_booking confirmed)"
        and st' = "example_state approved ?chain confirmed"] manager
    by blast
  have 4: "bookingsInSync ?new"
    using bookings_stay_in_sync [OF sync(3,4), where newEventId = 11 and newBookingId = 21
        and now = 0 and requester = 3 and body = example_payload and ev' = ?quiz and st' = ?new]
      create fresh
    by blast
  from 1 2 3 4 show ?thesis by blast
qed

end
